theory Spec2Isabelle
  imports Complex_Main "HOL-Library.Sublist" "HOL-Library.AList"
begin

section \<open>Name matchers: stat categories, units, reversed leaderboards\<close>

text \<open>
  The three functions \<^verbatim>\<open>categorizeStat\<close>, \<^verbatim>\<open>getStatUnit\<close> (cleaners/skyblock/stats)
  and \<^verbatim>\<open>isLeaderboardReversed\<close> (database) test a name against a matcher string with
  the same three-way condition, written out at each site:
  \<^verbatim>\<open>
    let trailingEnd = match[0] === '_'
    let trailingStart = match.slice(-1) === '_'      // substr(-1) in database.ts
    (trailingStart && name.startsWith(match))
      || (trailingEnd && name.endsWith(match))
      || (name == match)
  \<close>
  On the empty string \<^verbatim>\<open>match[0]\<close> is \<^verbatim>\<open>undefined\<close> and \<^verbatim>\<open>match.slice(-1)\<close> is the empty
  string, so both flags are false there.
\<close>

definition trailingEnd :: "string \<Rightarrow> bool" where
  "trailingEnd m = (case m of [] \<Rightarrow> False | c # _ \<Rightarrow> c = CHR ''_'')"

definition trailingStart :: "string \<Rightarrow> bool" where
  "trailingStart m = (case rev m of [] \<Rightarrow> False | c # _ \<Rightarrow> c = CHR ''_'')"

definition matcherMatches :: "string \<Rightarrow> string \<Rightarrow> bool" where
  "matcherMatches m name \<longleftrightarrow>
     (trailingStart m \<and> prefix m name) \<or> (trailingEnd m \<and> suffix m name) \<or> name = m"

definition reversedLeaderboards :: "string list" where
  "reversedLeaderboards = [''first_join'', ''_best_time'', ''_best_time_2'']"

text \<open>The loop of \<^verbatim>\<open>isLeaderboardReversed\<close> over the matcher list.\<close>

fun anyMatcher :: "string list \<Rightarrow> string \<Rightarrow> bool" where
  "anyMatcher [] name = False"
| "anyMatcher (m # ms) name =
     (if (trailingStart m \<and> prefix m name) \<or> (trailingEnd m \<and> suffix m name) \<or> name = m
      then True else anyMatcher ms name)"

definition isLeaderboardReversed :: "string \<Rightarrow> bool" where
  "isLeaderboardReversed name = anyMatcher reversedLeaderboards name"

definition statUnits :: "(string \<times> string list) list" where
  "statUnits =
     [(''time'', [''_best_time'', ''_best_time_2'', ''fastest_coop_join'', ''slowest_coop_join'']),
      (''date'', [''first_join'', ''last_save'']),
      (''coins'', [''purse'']),
      (''leaderboards'', [''leaderboards_count'', ''top_1_leaderboards_count''])]"

text \<open>\<^verbatim>\<open>getStatUnit\<close>: the first unit one of whose matchers matches, else \<^verbatim>\<open>null\<close>.\<close>

fun unitLoop :: "(string \<times> string list) list \<Rightarrow> string \<Rightarrow> string option" where
  "unitLoop [] name = None"
| "unitLoop ((unitName, statMatchers) # rest) name =
     (if anyMatcher statMatchers name then Some unitName else unitLoop rest name)"

definition getStatUnit :: "string \<Rightarrow> string option" where
  "getStatUnit name = unitLoop statUnits name"

text \<open>
  \<^verbatim>\<open>statCategories\<close>, in the order of the object literal; \<^verbatim>\<open>null\<close> (the entry
  \<^verbatim>\<open>misc\<close>) is \<open>None\<close>.
\<close>

definition statCategories :: "(string \<times> string list option) list" where
  "statCategories =
     [(''deaths'', Some [''deaths_'', ''deaths'']),
      (''kills'', Some [''kills_'', ''kills'']),
      (''fishing'', Some [''items_fished_'', ''items_fished'', ''shredder_'']),
      (''auctions'', Some [''auctions_'']),
      (''races'', Some [''_best_time'', ''_best_time_2'']),
      (''mythos'', Some [''mythos_burrows_'', ''mythos_kills'']),
      (''farming_contests'', Some [''farming_contests_'']),
      (''collection'', Some [''collection_'']),
      (''skills'', Some [''skill_'']),
      (''slayer'', Some [''slayer_'']),
      (''harp'', Some [''harp_'']),
      (''misc'', None)]"

text \<open>The interface \<^verbatim>\<open>StatCategory\<close>; its field \<^verbatim>\<open>name\<close> is \<open>statName\<close> here.\<close>

record StatCategory =
  category :: "string option"
  statName :: "string option"

text \<open>
  The inner loop of \<^verbatim>\<open>categorizeStat\<close> over one category's matchers: the prefix branch
  strips the matcher from the front, the suffix branch from the back, the exact branch
  gives no name. \<open>None\<close> means that no matcher of the category matched.
\<close>

fun categoryMatchLoop :: "string \<Rightarrow> string list \<Rightarrow> string \<Rightarrow> StatCategory option" where
  "categoryMatchLoop statCategory [] statNameRaw = None"
| "categoryMatchLoop statCategory (categoryMatch # rest) statNameRaw =
     (if trailingStart categoryMatch \<and> prefix categoryMatch statNameRaw
      then Some \<lparr>category = Some statCategory,
                 statName = Some (drop (length categoryMatch) statNameRaw)\<rparr>
      else if trailingEnd categoryMatch \<and> suffix categoryMatch statNameRaw
      then Some \<lparr>category = Some statCategory,
                 statName = Some (take (length statNameRaw - length categoryMatch) statNameRaw)\<rparr>
      else if statNameRaw = categoryMatch
      then Some \<lparr>category = Some statCategory, statName = None\<rparr>
      else categoryMatchLoop statCategory rest statNameRaw)"

fun categoryLoop :: "(string \<times> string list option) list \<Rightarrow> string \<Rightarrow> StatCategory" where
  "categoryLoop [] statNameRaw = \<lparr>category = None, statName = Some statNameRaw\<rparr>"
| "categoryLoop ((statCategory, None) # rest) statNameRaw =
     \<lparr>category = Some statCategory, statName = Some statNameRaw\<rparr>"
| "categoryLoop ((statCategory, Some statCategoryMatchers) # rest) statNameRaw =
     (case categoryMatchLoop statCategory statCategoryMatchers statNameRaw of
        Some r \<Rightarrow> r
      | None \<Rightarrow> categoryLoop rest statNameRaw)"

definition categorizeStat :: "string \<Rightarrow> StatCategory" where
  "categorizeStat statNameRaw = categoryLoop statCategories statNameRaw"

section \<open>Auction history synchronisation\<close>

text \<open>
  \<^verbatim>\<open>periodicallyFetchRecentlyEndedAuctions\<close> (hypixel.ts). One pass of its
  \<^verbatim>\<open>while (true)\<close> body is the function \<open>iteration\<close> below, applied to the snapshot that
  \<^verbatim>\<open>sendCleanApiRequest('skyblock/auctions_ended')\<close> returned. The cleaned record of an
  ended auction is declared in the cleaner \<^verbatim>\<open>endedAuctions.js\<close>, not modelled here; the
  loop reads its fields \<^verbatim>\<open>id\<close>, \<^verbatim>\<open>item.id\<close>, \<^verbatim>\<open>coins\<close>, \<^verbatim>\<open>timestamp\<close> and \<^verbatim>\<open>bin\<close>.
  Numbers are finite JavaScript numbers, taken as rationals; times are integers.
\<close>

record EndedAuction =
  ea_id :: string
  ea_item_id :: string
  ea_coins :: rat
  ea_timestamp :: int
  ea_bin :: bool

record EndedAuctions =
  ended_auctions :: "EndedAuction list"
  ended_lastUpdated :: int

record SimpleAuctionSchema =
  sa_s :: bool
  sa_coins :: rat
  sa_id :: string
  sa_ts :: int
  sa_bin :: bool

record ItemAuctionsSchema =
  ia_id :: string
  ia_auctions :: "SimpleAuctionSchema list"

text \<open>
  A JavaScript \<^verbatim>\<open>Set\<close> of strings, in insertion order: a list without repetition.
\<close>

definition setAdd :: "string \<Rightarrow> string list \<Rightarrow> string list" where
  "setAdd x xs = (if x \<in> set xs then xs else xs @ [x])"

text \<open>
  Modelled from the spec: \<^verbatim>\<open>fetchItemsAuctions\<close> and \<^verbatim>\<open>updateItemAuction\<close> are imported
  from \<^verbatim>\<open>database.js\<close>, whose auction part is not available. By the
  specification the first loads the existing histories of the given items from the
  persistent store (those not found start empty) and the second persists one history,
  creating it if absent. The store is a collection with one document for each item id.
\<close>

type_synonym auctionStore = "string \<rightharpoonup> ItemAuctionsSchema"

definition fetchItemsAuctions :: "auctionStore \<Rightarrow> string list \<Rightarrow> ItemAuctionsSchema list" where
  "fetchItemsAuctions store itemIds = List.map_filter store itemIds"

definition updateItemAuction :: "ItemAuctionsSchema \<Rightarrow> auctionStore \<Rightarrow> auctionStore" where
  "updateItemAuction t store = store(ia_id t \<mapsto> t)"

text \<open>The first loop: the ids, and the item ids, of the auctions not seen before.\<close>

fun newIdsLoop ::
  "string list \<Rightarrow> EndedAuction list \<Rightarrow> string list \<times> string list \<Rightarrow> string list \<times> string list"
where
  "newIdsLoop previousAuctionIds [] acc = acc"
| "newIdsLoop previousAuctionIds (auction # rest) (newAuctionUuids, newAuctionItemIds) =
     (if ea_id auction \<in> set previousAuctionIds
      then newIdsLoop previousAuctionIds rest (newAuctionUuids, newAuctionItemIds)
      else newIdsLoop previousAuctionIds rest
             (setAdd (ea_id auction) newAuctionUuids,
              setAdd (ea_item_id auction) newAuctionItemIds))"

definition toSimpleAuction :: "EndedAuction \<Rightarrow> SimpleAuctionSchema" where
  "toSimpleAuction auction =
     \<lparr>sa_s = True, sa_coins = ea_coins auction, sa_id = ea_id auction,
      sa_ts = ea_timestamp auction div 1000, sa_bin = ea_bin auction\<rparr>"

text \<open>
  The guarded push: \<^verbatim>\<open>if (!auctions.find(a => a.id === simpleAuction.id))\<close> appends, and
  \<^verbatim>\<open>auctions.slice(-100)\<close> keeps the last hundred when there are more.
\<close>

definition pushAuction ::
  "SimpleAuctionSchema list \<Rightarrow> SimpleAuctionSchema \<Rightarrow> SimpleAuctionSchema list" where
  "pushAuction auctions simpleAuction =
     (if find (\<lambda>a. sa_id a = sa_id simpleAuction) auctions = None
      then (let pushed = auctions @ [simpleAuction]
            in if length pushed > 100 then drop (length pushed - 100) pushed else pushed)
      else auctions)"

text \<open>
  \<^verbatim>\<open>updatedDatabaseAuctionItems\<close> is a JavaScript \<^verbatim>\<open>Map\<close>: an association list in
  insertion order, \<^verbatim>\<open>set\<close> being \<open>AList.update\<close>. The body of the second loop, for one
  auction that is new, is \<open>mergeAuction\<close>.
\<close>

definition mergeAuction ::
  "EndedAuction \<Rightarrow> (string \<times> ItemAuctionsSchema) list \<Rightarrow> (string \<times> ItemAuctionsSchema) list"
where
  "mergeAuction auction updatedDatabaseAuctionItems =
     (let auctions =
            (case map_of updatedDatabaseAuctionItems (ea_item_id auction) of
               None \<Rightarrow> []
             | Some itemAuctions \<Rightarrow> ia_auctions itemAuctions);
          auctions' = pushAuction auctions (toSimpleAuction auction)
      in AList.update (ea_item_id auction)
           \<lparr>ia_id = ea_item_id auction, ia_auctions = auctions'\<rparr>
           updatedDatabaseAuctionItems)"

fun mergeLoop ::
  "string list \<Rightarrow> EndedAuction list \<Rightarrow> (string \<times> ItemAuctionsSchema) list
     \<Rightarrow> (string \<times> ItemAuctionsSchema) list"
where
  "mergeLoop previousAuctionIds [] updatedDatabaseAuctionItems = updatedDatabaseAuctionItems"
| "mergeLoop previousAuctionIds (auction # rest) updatedDatabaseAuctionItems =
     (if ea_id auction \<in> set previousAuctionIds
      then mergeLoop previousAuctionIds rest updatedDatabaseAuctionItems
      else mergeLoop previousAuctionIds rest (mergeAuction auction updatedDatabaseAuctionItems))"

text \<open>
  The state the loop carries from one pass to the next: the local
  \<^verbatim>\<open>previousAuctionIds\<close> and the persistent collection. The five workers of the promise
  pool drain one task list; the tasks write documents of different ids, so the collection
  they leave does not depend on the order, and the model writes them in list order.
\<close>

definition iteration ::
  "EndedAuctions \<Rightarrow> string list \<times> auctionStore \<Rightarrow> string list \<times> auctionStore" where
  "iteration endedAuctions st =
     (let previousAuctionIds = fst st;
          store = snd st;
          (newAuctionUuids, newAuctionItemIds) =
             newIdsLoop previousAuctionIds (ended_auctions endedAuctions) ([], []);
          itemsAuctions = fetchItemsAuctions store newAuctionItemIds;
          loaded = fold (\<lambda>itemAuctions m. AList.update (ia_id itemAuctions) itemAuctions m)
                     itemsAuctions [];
          updatedDatabaseAuctionItems =
             mergeLoop previousAuctionIds (ended_auctions endedAuctions) loaded;
          store' = fold updateItemAuction (map snd updatedDatabaseAuctionItems) store
      in (newAuctionUuids, store'))"

text \<open>
  The delay handed to \<^verbatim>\<open>setTimeout\<close> at the end of a pass, in milliseconds; \<open>now\<close> is
  \<^verbatim>\<open>Date.now()\<close>.
\<close>

definition refetchIn :: "int \<Rightarrow> int \<Rightarrow> int" where
  "refetchIn now lastUpdated =
     (let endedAgo = now - lastUpdated in 60 * 1000 - endedAgo + 10000)"

text \<open>
  Invariants of the working map, used in the proofs: its keys are distinct and each
  document sits under its own id (\<open>keyed\<close>); no history is longer than a hundred
  (\<open>capped\<close>).
\<close>

definition keyed :: "(string \<times> ItemAuctionsSchema) list \<Rightarrow> bool" where
  "keyed al \<longleftrightarrow> distinct (map fst al) \<and> (\<forall>k d. map_of al k = Some d \<longrightarrow> ia_id d = k)"

definition capped :: "(string \<times> ItemAuctionsSchema) list \<Rightarrow> bool" where
  "capped al \<longleftrightarrow> (\<forall>k d. map_of al k = Some d \<longrightarrow> length (ia_auctions d) \<le> 100)"

text \<open>The working map as the first loop and the load leave it, before the merge.\<close>

definition loadedItems :: "EndedAuctions \<Rightarrow> string list \<Rightarrow> auctionStore \<Rightarrow> (string \<times> ItemAuctionsSchema) list" where
  "loadedItems ea prev store =
     fold (\<lambda>itemAuctions m. AList.update (ia_id itemAuctions) itemAuctions m)
       (fetchItemsAuctions store (snd (newIdsLoop prev (ended_auctions ea) ([], [])))) []"

text \<open>The history the merge finds for an item in the working map (empty when absent).\<close>

definition history :: "(string \<times> ItemAuctionsSchema) list \<Rightarrow> string \<Rightarrow> SimpleAuctionSchema list" where
  "history upd it = (case map_of upd it of None \<Rightarrow> [] | Some itemAuctions \<Rightarrow> ia_auctions itemAuctions)"

text \<open>The loop over the successive snapshots that the upstream returns.\<close>

definition iterations ::
  "EndedAuctions list \<Rightarrow> string list \<times> auctionStore \<Rightarrow> string list \<times> auctionStore" where
  "iterations snapshots st = fold iteration snapshots st"

section \<open>The cached election data\<close>

text \<open>
  \<^verbatim>\<open>fetchElection\<close> (hypixel.ts) and its module variables \<^verbatim>\<open>isFetchingElection\<close>,
  \<^verbatim>\<open>cachedElectionData\<close> and \<^verbatim>\<open>nextElectionUpdate\<close>; \<^verbatim>\<open>fetchItemList\<close> is the same
  function over its own three variables, with 60 minutes for 10. The code reads only
  \<^verbatim>\<open>lastUpdated\<close> (seconds) of the election data; \<open>el_payload\<close> stands for the rest.
\<close>

record ElectionData =
  el_lastUpdated :: int
  el_payload :: nat

text \<open>
  JavaScript runs one task at a time, and an \<^verbatim>\<open>async\<close> function gives up control only at
  an \<^verbatim>\<open>await\<close>. An invocation of \<^verbatim>\<open>fetchElection\<close> is therefore in one of these places:
  suspended on the polling promise, suspended on \<^verbatim>\<open>sendCleanApiRequest\<close>, returned with a
  value, or left by the exception of \<^verbatim>\<open>sendCleanApiRequest\<close> (which throws when the
  upstream returns no data).
\<close>

datatype call = Waiting | Fetching | Returned ElectionData | Thrown

record electionState =
  isFetchingElection :: bool
  cachedElectionData :: "ElectionData option"
  nextElectionUpdate :: int
  calls :: "nat \<rightharpoonup> call"
  upstreamRequests :: nat

text \<open>The module as loaded: nothing cached, \<^verbatim>\<open>new Date(0)\<close>, no invocation yet.\<close>

definition initialElection :: electionState where
  "initialElection =
     \<lparr>isFetchingElection = False, cachedElectionData = None, nextElectionUpdate = 0,
      calls = Map.empty, upstreamRequests = 0\<rparr>"

text \<open>
  What the event loop can run: a new invocation at the time \<open>now\<close> (milliseconds), the
  100 ms interval callback of a suspended invocation, and the completion of the upstream
  request of an invocation, with the cleaned data or with \<open>None\<close> for the exception.
  Invocations are named by numbers; an event that does not fit the place its invocation
  is in changes nothing.
\<close>

datatype event = Call nat int | Tick nat | Response nat "ElectionData option"

text \<open>
  The statements after the polling block up to the \<^verbatim>\<open>await\<close>:
  \<^verbatim>\<open>isFetchingElection = true\<close> and the call of \<^verbatim>\<open>sendCleanApiRequest\<close>.
\<close>

definition startRequest :: "nat \<Rightarrow> electionState \<Rightarrow> electionState" where
  "startRequest c st =
     st\<lparr>isFetchingElection := True,
        calls := (calls st)(c \<mapsto> Fetching),
        upstreamRequests := Suc (upstreamRequests st)\<rparr>"

fun fetchElection :: "event \<Rightarrow> electionState \<Rightarrow> electionState" where
  "fetchElection (Call c now) st =
     (if calls st c \<noteq> None then st
      else
        (case cachedElectionData st of
           Some election \<Rightarrow>
             if nextElectionUpdate st > now
             then st\<lparr>calls := (calls st)(c \<mapsto> Returned election)\<rparr>
             else startRequest c st
         | None \<Rightarrow>
             if isFetchingElection st
             then st\<lparr>calls := (calls st)(c \<mapsto> Waiting)\<rparr>
             else startRequest c st))"
| "fetchElection (Tick c) st =
     (if calls st c = Some Waiting \<and> cachedElectionData st \<noteq> None
      then startRequest c st
      else st)"
| "fetchElection (Response c r) st =
     (if calls st c = Some Fetching
      then
        (case r of
           None \<Rightarrow> st\<lparr>calls := (calls st)(c \<mapsto> Thrown)\<rparr>
         | Some election \<Rightarrow>
             st\<lparr>isFetchingElection := False,
                cachedElectionData := Some election,
                nextElectionUpdate := (el_lastUpdated election + 10 * 60) * 1000,
                calls := (calls st)(c \<mapsto> Returned election)\<rparr>)
      else st)"

text \<open>A schedule of events, run in order.\<close>

definition runElection :: "event list \<Rightarrow> electionState \<Rightarrow> electionState" where
  "runElection es st = fold fetchElection es st"

text \<open>
  The invariant of a cold start, used in the proofs: before any request there is no
  invocation and the flag is down; after the first request the flag is up and at most
  one invocation is at the upstream.
\<close>

definition coldInvariant :: "electionState \<Rightarrow> bool" where
  "coldInvariant st \<longleftrightarrow>
     cachedElectionData st \<noteq> None
     \<or> (upstreamRequests st = 0 \<and> \<not> isFetchingElection st \<and> calls st = Map.empty)
     \<or> (upstreamRequests st = 1 \<and> isFetchingElection st
         \<and> (\<forall>c c'. calls st c = Some Fetching \<and> calls st c' = Some Fetching \<longrightarrow> c = c')
         \<and> (\<forall>c election. calls st c \<noteq> Some (Returned election)))"

text \<open>
  The state a failed request leaves on a cold cache, used in the proofs: the flag is up,
  nothing is cached, and no invocation is at the upstream or has returned.
\<close>

definition stuckElection :: "electionState \<Rightarrow> bool" where
  "stuckElection st \<longleftrightarrow>
     isFetchingElection st \<and> cachedElectionData st = None
     \<and> (\<forall>c. calls st c \<noteq> Some Fetching) \<and> (\<forall>c election. calls st c \<noteq> Some (Returned election))"

section \<open>Member leaderboards\<close>

text \<open>
  The leaderboard part of \<^verbatim>\<open>database.ts\<close>. A JavaScript object with string keys is an
  association list in insertion order, assignment to a key being \<open>AList.update\<close> (the
  value is replaced in place when the key is there, appended otherwise); leaderboard
  names are not integer-like, so insertion order is the order of \<^verbatim>\<open>Object.entries\<close>.
  Attribute values are finite JavaScript numbers, taken as rationals, on which the
  comparisons and the sign of a difference are exact.
\<close>

type_synonym attributes = "(string \<times> rat) list"

text \<open>
  \<^verbatim>\<open>DatabaseLeaderboardItem\<close>. A document of the collection also carries the
  \<^verbatim>\<open>profile\<close> it was upserted under; an entry that the mirror patch builds has no
  such field (\<open>None\<close>). Dates are milliseconds.
\<close>

record DatabaseLeaderboardItem =
  uuid :: string
  profile :: "string option"
  stats :: attributes
  last_updated :: int

text \<open>
  The fields of \<^verbatim>\<open>CleanMember\<close> and \<^verbatim>\<open>CleanFullProfile\<close> that the leaderboard code
  reads (the interfaces are declared in the cleaners \<^verbatim>\<open>member\<close> and \<^verbatim>\<open>profile\<close>):
  \<^verbatim>\<open>member.uuid\<close> is \<open>member_uuid\<close> and \<^verbatim>\<open>profile.uuid\<close> is \<open>profile_uuid\<close>, collections
  and skills are pairs of a name and its xp, \<^verbatim>\<open>fairy_souls.total\<close> is
  \<open>fairy_souls_total\<close>, visited zones are given by their names.
\<close>

record CleanMember =
  member_uuid :: string
  rawHypixelStats :: attributes
  collections :: "(string \<times> rat) list"
  skills :: "(string \<times> rat) list"
  fairy_souls_total :: rat
  first_join :: rat
  purse :: rat
  visited_zones :: "string list"

record CleanFullProfile =
  profile_uuid :: string

text \<open>
  The exceptions that can leave \<^verbatim>\<open>updateDatabaseMember\<close>: a rejected operation of the
  persistent store, or a rejected call into \<^verbatim>\<open>constants\<close> (which keeps the known stat,
  collection, skill and zone names in a remote repository). Whether they are reachable
  during a call is the environment of that call.
\<close>

datatype failure = StoreUnavailable | ConstantsUnavailable

record environment =
  storeUp :: bool
  constantsUp :: bool

text \<open>
  The module state: whether \<^verbatim>\<open>client\<close> is set, the \<^verbatim>\<open>recentlyUpdated\<close> cache (each key
  with the time at which it expires), the mirror \<^verbatim>\<open>cachedRawLeaderboards\<close>, and the
  documents of \<^verbatim>\<open>memberLeaderboardsCollection\<close>.
\<close>

record database =
  client :: bool
  recentlyUpdated :: "string \<rightharpoonup> int"
  cachedRawLeaderboards :: "string \<rightharpoonup> DatabaseLeaderboardItem list"
  memberLeaderboardsCollection :: "DatabaseLeaderboardItem list"

definition leaderboardMax :: nat where
  "leaderboardMax = 100"

text \<open>
  Modelled from the spec: the expiring cache \<^verbatim>\<open>recentlyUpdated\<close> is an instance of the
  library class \<^verbatim>\<open>NodeCache\<close> with \<^verbatim>\<open>stdTTL: 60 * 3\<close> (seconds). By the specification
  a marker expires three minutes after it was set; \<^verbatim>\<open>get\<close> at the time \<open>now\<close> finds a key
  whose expiry time is not yet past, and \<^verbatim>\<open>set\<close> gives the key a fresh three minutes.
\<close>

definition recentlyUpdated_get :: "int \<Rightarrow> string \<Rightarrow> database \<Rightarrow> bool" where
  "recentlyUpdated_get now key db =
     (case recentlyUpdated db key of None \<Rightarrow> False | Some expires \<Rightarrow> \<not> expires < now)"

definition recentlyUpdated_set :: "int \<Rightarrow> string \<Rightarrow> database \<Rightarrow> database" where
  "recentlyUpdated_set now key db =
     db\<lparr>recentlyUpdated := (recentlyUpdated db)(key \<mapsto> now + 60 * 3 * 1000)\<rparr>"

text \<open>
  The order of a leaderboard as a sort key: the value itself when the leaderboard is
  reversed (ascending), its negation otherwise (descending). The comparator of
  \<^verbatim>\<open>updateDatabaseMember\<close>,
  \<^verbatim>\<open>leaderboardReverse ? a.stats[n] - b.stats[n] : b.stats[n] - a.stats[n]\<close>,
  is negative, zero or positive as this key of \<open>a\<close> is below, equal to or above that of
  \<open>b\<close>, and \<^verbatim>\<open>Array.prototype.sort\<close> is stable, as \<open>sort_key\<close> is. An entry without the
  attribute would make the comparator return \<^verbatim>\<open>NaN\<close>; the key gives it 0, and
  \<open>hasAttribute\<close> below records that a leaderboard never holds such an entry.
\<close>

definition rankKey :: "string \<Rightarrow> DatabaseLeaderboardItem \<Rightarrow> rat" where
  "rankKey attributeName item =
     (case map_of (stats item) attributeName of
        None \<Rightarrow> 0
      | Some v \<Rightarrow> if isLeaderboardReversed attributeName then v else - v)"

text \<open>
  Modelled from the spec: the persistent store is the MongoDB driver, of which the
  specification fixes the contract. \<^verbatim>\<open>find(query).sort(sortQuery).limit(leaderboardMax)\<close>
  with the query \<^verbatim>\<open>{ $exists: true, $ne: NaN }\<close> on \<^verbatim>\<open>stats.<name>\<close> returns the documents
  that have the attribute, sorted by it (ascending for \<open>1\<close>, descending for \<open>-1\<close>), the
  first hundred of them. \<^verbatim>\<open>updateOne(filter, { $set }, { upsert: true })\<close> sets the fields
  of the first document with the given \<^verbatim>\<open>uuid\<close> and \<^verbatim>\<open>profile\<close>, and inserts such a
  document when there is none.
\<close>

definition findSortLimit :: "string \<Rightarrow> DatabaseLeaderboardItem list \<Rightarrow> DatabaseLeaderboardItem list" where
  "findSortLimit name documents =
     take leaderboardMax
       (sort_key (rankKey name) (filter (\<lambda>d. map_of (stats d) name \<noteq> None) documents))"

fun updateOne ::
  "string \<Rightarrow> string \<Rightarrow> attributes \<Rightarrow> int \<Rightarrow> DatabaseLeaderboardItem list
     \<Rightarrow> DatabaseLeaderboardItem list"
where
  "updateOne u p leaderboardAttributes now [] =
     [\<lparr>uuid = u, profile = Some p, stats = leaderboardAttributes, last_updated = now\<rparr>]"
| "updateOne u p leaderboardAttributes now (d # ds) =
     (if uuid d = u \<and> profile d = Some p
      then d\<lparr>stats := leaderboardAttributes, last_updated := now\<rparr> # ds
      else d # updateOne u p leaderboardAttributes now ds)"

subsection \<open>The attributes of a member\<close>

definition getMemberCollectionAttributes :: "CleanMember \<Rightarrow> attributes" where
  "getMemberCollectionAttributes member =
     fold (\<lambda>(collection_name, xp) collectionAttributes.
             AList.update (''collection_'' @ collection_name) xp collectionAttributes)
       (collections member) []"

definition getMemberSkillAttributes :: "CleanMember \<Rightarrow> attributes" where
  "getMemberSkillAttributes member =
     fold (\<lambda>(skill_name, xp) skillAttributes.
             AList.update (''skill_'' @ skill_name) xp skillAttributes)
       (skills member) []"

text \<open>The object literal with its spreads: the properties are assigned left to right.\<close>

definition getMemberLeaderboardAttributes :: "CleanMember \<Rightarrow> attributes" where
  "getMemberLeaderboardAttributes member =
     fold (\<lambda>(k, v) obj. AList.update k v obj)
       (rawHypixelStats member
        @ getMemberCollectionAttributes member
        @ getMemberSkillAttributes member
        @ [(''fairy_souls'', fairy_souls_total member),
           (''first_join'', first_join member),
           (''purse'', purse member),
           (''visited_zones'', of_nat (length (visited_zones member)))])
       []"

subsection \<open>Reading a leaderboard\<close>

definition fetchMemberLeaderboardRaw ::
  "bool \<Rightarrow> string \<Rightarrow> database \<Rightarrow> (failure + DatabaseLeaderboardItem list) \<times> database" where
  "fetchMemberLeaderboardRaw up name db =
     (case cachedRawLeaderboards db name of
        Some leaderboard \<Rightarrow> (Inr leaderboard, db)
      | None \<Rightarrow>
          if \<not> up then (Inl StoreUnavailable, db)
          else
            let leaderboardRaw = findSortLimit name (memberLeaderboardsCollection db)
            in (Inr leaderboardRaw,
                db\<lparr>cachedRawLeaderboards := (cachedRawLeaderboards db)(name \<mapsto> leaderboardRaw)\<rparr>))"

text \<open>
  The requirement is a number, \<^verbatim>\<open>null\<close> for a leaderboard that is not full, or
  \<^verbatim>\<open>undefined\<close> if the hundredth entry had no such attribute.
\<close>

datatype requirement = Null | Undefined | Number rat

definition getMemberLeaderboardRequirement ::
  "bool \<Rightarrow> string \<Rightarrow> database \<Rightarrow> (failure + requirement) \<times> database" where
  "getMemberLeaderboardRequirement up name db =
     (case fetchMemberLeaderboardRaw up name db of
        (Inl e, db') \<Rightarrow> (Inl e, db')
      | (Inr leaderboard, db') \<Rightarrow>
          if length leaderboard \<ge> leaderboardMax
          then (Inr (case map_of (stats (leaderboard ! (leaderboardMax - 1))) name of
                       None \<Rightarrow> Undefined
                     | Some v \<Rightarrow> Number v), db')
          else (Inr Null, db'))"

text \<open>
  JavaScript on a requirement: \<^verbatim>\<open>!requirement\<close> is true of \<^verbatim>\<open>null\<close>, \<^verbatim>\<open>undefined\<close> and
  0; in a comparison with a number \<^verbatim>\<open>null\<close> counts as 0, and \<^verbatim>\<open>undefined\<close> as \<^verbatim>\<open>NaN\<close>,
  so that the comparison is false.
\<close>

fun falsy :: "requirement \<Rightarrow> bool" where
  "falsy Null = True"
| "falsy Undefined = True"
| "falsy (Number r) = (r = 0)"

fun numberBelow :: "rat \<Rightarrow> requirement \<Rightarrow> bool" where
  "numberBelow v Null = (v < 0)"
| "numberBelow v Undefined = False"
| "numberBelow v (Number r) = (v < r)"

fun numberAbove :: "rat \<Rightarrow> requirement \<Rightarrow> bool" where
  "numberAbove v Null = (v > 0)"
| "numberAbove v Undefined = False"
| "numberAbove v (Number r) = (v > r)"

text \<open>
  The loop of \<^verbatim>\<open>getApplicableAttributes\<close>. Its test is
  \<^verbatim>\<open>!requirement || leaderboardReversed ? attributeValue < requirement : attributeValue > requirement\<close>,
  in which \<^verbatim>\<open>||\<close> binds tighter than the conditional operator: the condition of the
  conditional is \<^verbatim>\<open>!requirement || leaderboardReversed\<close>.
\<close>

fun applicableLoop ::
  "bool \<Rightarrow> attributes \<Rightarrow> attributes \<Rightarrow> database \<Rightarrow> (failure + attributes) \<times> database" where
  "applicableLoop up [] applicableAttributes db = (Inr applicableAttributes, db)"
| "applicableLoop up ((leaderboard, attributeValue) # rest) applicableAttributes db =
     (case getMemberLeaderboardRequirement up leaderboard db of
        (Inl e, db') \<Rightarrow> (Inl e, db')
      | (Inr requirement, db') \<Rightarrow>
          let leaderboardReversed = isLeaderboardReversed leaderboard
          in applicableLoop up rest
               (if (if falsy requirement \<or> leaderboardReversed
                    then numberBelow attributeValue requirement
                    else numberAbove attributeValue requirement)
                then AList.update leaderboard attributeValue applicableAttributes
                else applicableAttributes)
               db')"

definition getApplicableAttributes ::
  "bool \<Rightarrow> CleanMember \<Rightarrow> database \<Rightarrow> (failure + attributes) \<times> database" where
  "getApplicableAttributes up member db =
     applicableLoop up (getMemberLeaderboardAttributes member) [] db"

subsection \<open>Updating a member\<close>

text \<open>
  The new view of one leaderboard in the mirror: the entries of another uuid, then the
  new entry, sorted, the first hundred.
\<close>

definition newRawLeaderboard ::
  "int \<Rightarrow> string \<Rightarrow> attributes \<Rightarrow> string \<Rightarrow> DatabaseLeaderboardItem list
     \<Rightarrow> DatabaseLeaderboardItem list" where
  "newRawLeaderboard now u leaderboardAttributes attributeName existingRawLeaderboard =
     take 100
       (sort_key (rankKey attributeName)
          (filter (\<lambda>v. uuid v \<noteq> u) existingRawLeaderboard
           @ [\<lparr>uuid = u, profile = None, stats = leaderboardAttributes, last_updated = now\<rparr>]))"

fun patchLoop ::
  "bool \<Rightarrow> int \<Rightarrow> string \<Rightarrow> attributes \<Rightarrow> attributes \<Rightarrow> database \<Rightarrow> (failure + unit) \<times> database"
where
  "patchLoop up now u leaderboardAttributes [] db = (Inr (), db)"
| "patchLoop up now u leaderboardAttributes ((attributeName, attributeValue) # rest) db =
     (case fetchMemberLeaderboardRaw up attributeName db of
        (Inl e, db') \<Rightarrow> (Inl e, db')
      | (Inr existingRawLeaderboard, db') \<Rightarrow>
          patchLoop up now u leaderboardAttributes rest
            (db'\<lparr>cachedRawLeaderboards := (cachedRawLeaderboards db')
                  (attributeName \<mapsto>
                     newRawLeaderboard now u leaderboardAttributes attributeName
                       existingRawLeaderboard)\<rparr>))"

text \<open>
  The second half of \<^verbatim>\<open>updateDatabaseMember\<close>, from \<^verbatim>\<open>updateOne\<close> to the end of the loop
  over the applicable attributes: the upsert of the member's document, then the patch of
  the mirror. The clock is read as \<open>now\<close> throughout one call.
\<close>

definition commitMember ::
  "bool \<Rightarrow> int \<Rightarrow> CleanMember \<Rightarrow> CleanFullProfile \<Rightarrow> attributes \<Rightarrow> database
     \<Rightarrow> (failure + unit) \<times> database" where
  "commitMember up now member prof leaderboardAttributes db =
     (if \<not> up then (Inl StoreUnavailable, db)
      else
        patchLoop up now (member_uuid member) leaderboardAttributes leaderboardAttributes
          (db\<lparr>memberLeaderboardsCollection :=
               updateOne (member_uuid member) (profile_uuid prof) leaderboardAttributes now
                 (memberLeaderboardsCollection db)\<rparr>))"

definition updateDatabaseMember ::
  "environment \<Rightarrow> int \<Rightarrow> CleanMember \<Rightarrow> CleanFullProfile \<Rightarrow> database
     \<Rightarrow> (failure + unit) \<times> database" where
  "updateDatabaseMember env now member prof db =
     (if \<not> client db then (Inr (), db)
      else if recentlyUpdated_get now (profile_uuid prof @ member_uuid member) db
      then (Inr (), db)
      else
        let db1 = recentlyUpdated_set now (profile_uuid prof @ member_uuid member) db
        in if \<not> constantsUp env then (Inl ConstantsUnavailable, db1)
           else
             (case getApplicableAttributes (storeUp env) member db1 of
                (Inl e, db2) \<Rightarrow> (Inl e, db2)
              | (Inr leaderboardAttributes, db2) \<Rightarrow>
                  commitMember (storeUp env) now member prof leaderboardAttributes db2))"

subsection \<open>Concrete inputs\<close>

text \<open>
  The module after \<^verbatim>\<open>connect\<close> on an empty collection, and a member with a few
  attributes; the theorems below evaluate the code on them.
\<close>

definition emptyDatabase :: database where
  "emptyDatabase =
     \<lparr>client = True, recentlyUpdated = Map.empty, cachedRawLeaderboards = Map.empty,
      memberLeaderboardsCollection = []\<rparr>"

definition exampleMember :: CleanMember where
  "exampleMember =
     \<lparr>member_uuid = ''6536bfed869548fd83a1ecd24cf2a0fd'',
      rawHypixelStats = [(''kills_zombie'', 50), (''deaths'', 3)],
      collections = [(''wheat'', 1000)],
      skills = [(''farming'', 45 / 2)],
      fairy_souls_total = 10,
      first_join = 1600000000000,
      purse = 25 / 2,
      visited_zones = [''hub'', ''farm'']\<rparr>"

definition exampleCollection :: "DatabaseLeaderboardItem list" where
  "exampleCollection =
     [\<lparr>uuid = ''a'', profile = Some ''p'', stats = [(''kills'', 5), (''x_best_time'', 30)],
       last_updated = 0\<rparr>,
      \<lparr>uuid = ''b'', profile = Some ''p'', stats = [(''kills'', 9), (''x_best_time'', 20)],
       last_updated = 0\<rparr>,
      \<lparr>uuid = ''c'', profile = Some ''q'', stats = [(''deaths'', 1)], last_updated = 0\<rparr>]"

definition exampleProfile :: CleanFullProfile where
  "exampleProfile = \<lparr>profile_uuid = ''4133cab5a7534f3f9bb636fc06a1f0fd''\<rparr>"

subsection \<open>Well-formed views\<close>

text \<open>
  \<open>ranked name a b\<close>: both entries carry the attribute, and \<open>a\<close> may stand before \<open>b\<close> on the
  leaderboard \<open>name\<close>: its value is not above that of \<open>b\<close> when the leaderboard is reversed,
  and not below it otherwise.
\<close>

definition ranked :: "string \<Rightarrow> DatabaseLeaderboardItem \<Rightarrow> DatabaseLeaderboardItem \<Rightarrow> bool" where
  "ranked name a b =
     (case map_of (stats a) name of
        None \<Rightarrow> False
      | Some x \<Rightarrow>
          (case map_of (stats b) name of
             None \<Rightarrow> False
           | Some y \<Rightarrow> if isLeaderboardReversed name then x \<le> y else y \<le> x))"

definition hasAttribute :: "string \<Rightarrow> DatabaseLeaderboardItem \<Rightarrow> bool" where
  "hasAttribute name d = (map_of (stats d) name \<noteq> None)"

definition servedView :: "string \<Rightarrow> DatabaseLeaderboardItem list \<Rightarrow> bool" where
  "servedView name leaderboard \<longleftrightarrow>
     length leaderboard \<le> 100
     \<and> list_all (hasAttribute name) leaderboard
     \<and> sorted_wrt (ranked name) leaderboard"

definition mirrorServed :: "database \<Rightarrow> bool" where
  "mirrorServed db \<longleftrightarrow>
     (\<forall>name leaderboard. cachedRawLeaderboards db name = Some leaderboard
        \<longrightarrow> servedView name leaderboard)"

text \<open>
  The operations on the mirror, in the order in which the event loop runs them: updates
  of members, and reads of a leaderboard (by \<^verbatim>\<open>fetchMemberLeaderboard\<close> and the cache
  warming).
\<close>

datatype operation =
    UpdateMember environment int CleanMember CleanFullProfile
  | FetchRaw bool string

fun perform :: "operation \<Rightarrow> database \<Rightarrow> database" where
  "perform (UpdateMember env now member prof) db =
     snd (updateDatabaseMember env now member prof db)"
| "perform (FetchRaw up name) db = snd (fetchMemberLeaderboardRaw up name db)"

subsection \<open>Comparing states up to dates\<close>

text \<open>
  An entry without its \<^verbatim>\<open>last_updated\<close>, and the view that the patch of a leaderboard
  starts from: the mirror's, or on a miss the result of the query.
\<close>

definition withoutDate :: "DatabaseLeaderboardItem \<Rightarrow> DatabaseLeaderboardItem" where
  "withoutDate d = d\<lparr>last_updated := 0\<rparr>"

definition leaderboardBefore :: "database \<Rightarrow> string \<Rightarrow> DatabaseLeaderboardItem list" where
  "leaderboardBefore db name =
     (case cachedRawLeaderboards db name of
        Some leaderboard \<Rightarrow> leaderboard
      | None \<Rightarrow> findSortLimit name (memberLeaderboardsCollection db))"

text \<open>
  The entry that the patch appends, the state after the upsert, and the state that a
  commit with a reachable store leaves: the document upserted, and each leaderboard of
  the attributes patched from the view it had.
\<close>

definition newEntry :: "int \<Rightarrow> string \<Rightarrow> attributes \<Rightarrow> DatabaseLeaderboardItem" where
  "newEntry now u attrs = \<lparr>uuid = u, profile = None, stats = attrs, last_updated = now\<rparr>"

definition afterUpsert ::
  "int \<Rightarrow> CleanMember \<Rightarrow> CleanFullProfile \<Rightarrow> attributes \<Rightarrow> database \<Rightarrow> database" where
  "afterUpsert now member prof attrs db =
     db\<lparr>memberLeaderboardsCollection :=
          updateOne (member_uuid member) (profile_uuid prof) attrs now
            (memberLeaderboardsCollection db)\<rparr>"

definition afterCommit ::
  "int \<Rightarrow> CleanMember \<Rightarrow> CleanFullProfile \<Rightarrow> attributes \<Rightarrow> database \<Rightarrow> database" where
  "afterCommit now member prof attrs db =
     db\<lparr>memberLeaderboardsCollection :=
          updateOne (member_uuid member) (profile_uuid prof) attrs now
            (memberLeaderboardsCollection db),
        cachedRawLeaderboards :=
          (\<lambda>n. if n \<in> fst ` set attrs
               then Some (newRawLeaderboard now (member_uuid member) attrs n
                      (leaderboardBefore (afterUpsert now member prof attrs db) n))
               else cachedRawLeaderboards db n)\<rparr>"

section \<open>Properties of the matchers\<close>

lemma anyMatcher_iff: "anyMatcher ms name \<longleftrightarrow> list_ex (\<lambda>m. matcherMatches m name) ms"
  by (induction ms) (auto simp: matcherMatches_def)

lemma trailingEnd_iff: "trailingEnd m \<longleftrightarrow> m \<noteq> [] \<and> hd m = CHR ''_''"
  by (cases m) (simp_all add: trailingEnd_def)

lemma trailingStart_iff: "trailingStart m \<longleftrightarrow> m \<noteq> [] \<and> last m = CHR ''_''"
proof (cases "rev m")
  case Nil
  then show ?thesis by (simp add: trailingStart_def)
next
  case (Cons c cs)
  then have "m = rev cs @ [c]" by (metis rev_rev_ident rev.simps(2))
  then show ?thesis by (simp add: trailingStart_def)
qed

lemma categoryMatchLoop_None:
  "categoryMatchLoop c ms n = None \<longleftrightarrow> \<not> anyMatcher ms n"
  by (induction ms) simp_all

lemma categoryMatchLoop_category:
  "categoryMatchLoop c ms n = Some r \<Longrightarrow> category r = Some c"
  by (induction ms) (auto split: if_splits)


lemma unitLoop_find:
  "unitLoop us n = map_option fst (find (\<lambda>(u, ms). list_ex (\<lambda>m. matcherMatches m n) ms) us)"
  by (induction us n rule: unitLoop.induct) (simp_all add: anyMatcher_iff)

lemma categoryLoop_find:
  "category (categoryLoop cs n) =
     map_option fst (find (\<lambda>(c, ms). case ms of None \<Rightarrow> True
                                  | Some ms \<Rightarrow> list_ex (\<lambda>m. matcherMatches m n) ms) cs)"
proof (induction cs n rule: categoryLoop.induct)
  case (3 c ms rest n)
  show ?case
  proof (cases "categoryMatchLoop c ms n")
    case None
    then have "\<not> anyMatcher ms n" by (simp add: categoryMatchLoop_None)
    with 3 None show ?thesis by (simp add: anyMatcher_iff)
  next
    case (Some r)
    then have "anyMatcher ms n" using categoryMatchLoop_None[of c ms n] by simp
    moreover have "category r = Some c" using Some by (rule categoryMatchLoop_category)
    ultimately show ?thesis using Some by (simp add: anyMatcher_iff)
  qed
qed simp_all

text \<open>
  Claim C7, as the code has it. The flag named \<open>trailingStart\<close> is set by a trailing
  underscore and selects the prefix test, the flag named \<open>trailingEnd\<close> is set by a leading
  underscore and selects the suffix test: a matcher whose last character is an underscore
  (and whose first is not) matches exactly the names that start with the matcher string; a
  matcher whose first character is an underscore (and whose last is not) matches exactly the
  names that end with it; a matcher with both matches the names that start or end with it;
  a matcher with neither, the empty one included, matches only the identical name. The
  reversed-leaderboard test, the unit lookup and the category lookup all decide by this
  one condition, the tables being scanned in order.
\<close>

theorem matcher_convention:
  "(m \<noteq> [] \<and> last m = CHR ''_'' \<and> hd m \<noteq> CHR ''_'' \<longrightarrow> (matcherMatches m n \<longleftrightarrow> prefix m n))
   \<and> (m \<noteq> [] \<and> hd m = CHR ''_'' \<and> last m \<noteq> CHR ''_'' \<longrightarrow> (matcherMatches m n \<longleftrightarrow> suffix m n))
   \<and> (m \<noteq> [] \<and> hd m = CHR ''_'' \<and> last m = CHR ''_'' \<longrightarrow>
        (matcherMatches m n \<longleftrightarrow> prefix m n \<or> suffix m n))
   \<and> (m = [] \<or> (hd m \<noteq> CHR ''_'' \<and> last m \<noteq> CHR ''_'') \<longrightarrow> (matcherMatches m n \<longleftrightarrow> n = m))
   \<and> (isLeaderboardReversed n \<longleftrightarrow> list_ex (\<lambda>m. matcherMatches m n) reversedLeaderboards)
   \<and> getStatUnit n =
        map_option fst (find (\<lambda>(u, ms). list_ex (\<lambda>m. matcherMatches m n) ms) statUnits)
   \<and> category (categorizeStat n) =
        map_option fst (find (\<lambda>(c, ms). case ms of None \<Rightarrow> True
                                     | Some ms \<Rightarrow> list_ex (\<lambda>m. matcherMatches m n) ms) statCategories)"
proof -
  have 1: "m \<noteq> [] \<and> last m = CHR ''_'' \<and> hd m \<noteq> CHR ''_'' \<longrightarrow> (matcherMatches m n \<longleftrightarrow> prefix m n)"
    by (auto simp: matcherMatches_def trailingStart_iff trailingEnd_iff)
  have 2: "m \<noteq> [] \<and> hd m = CHR ''_'' \<and> last m \<noteq> CHR ''_'' \<longrightarrow> (matcherMatches m n \<longleftrightarrow> suffix m n)"
    by (auto simp: matcherMatches_def trailingStart_iff trailingEnd_iff)
  have 3: "m \<noteq> [] \<and> hd m = CHR ''_'' \<and> last m = CHR ''_'' \<longrightarrow>
        (matcherMatches m n \<longleftrightarrow> prefix m n \<or> suffix m n)"
    by (auto simp: matcherMatches_def trailingStart_iff trailingEnd_iff)
  have 4: "m = [] \<or> (hd m \<noteq> CHR ''_'' \<and> last m \<noteq> CHR ''_'') \<longrightarrow> (matcherMatches m n \<longleftrightarrow> n = m)"
    by (auto simp: matcherMatches_def trailingStart_iff trailingEnd_iff)
  have 5: "isLeaderboardReversed n \<longleftrightarrow> list_ex (\<lambda>m. matcherMatches m n) reversedLeaderboards"
    by (simp add: isLeaderboardReversed_def anyMatcher_iff)
  have 6: "getStatUnit n =
        map_option fst (find (\<lambda>(u, ms). list_ex (\<lambda>m. matcherMatches m n) ms) statUnits)"
    by (simp add: getStatUnit_def unitLoop_find)
  have 7: "category (categorizeStat n) =
        map_option fst (find (\<lambda>(c, ms). case ms of None \<Rightarrow> True
                                     | Some ms \<Rightarrow> list_ex (\<lambda>m. matcherMatches m n) ms) statCategories)"
    by (simp add: categorizeStat_def categoryLoop_find)
  from 1 2 3 4 5 6 7 show ?thesis by blast
qed

text \<open>The convention of C7 at concrete matchers of each of the four shapes.\<close>

theorem matcher_convention_witness:
  "matcherMatches ''deaths_'' ''deaths_void'' \<and> \<not> matcherMatches ''deaths_'' ''void_deaths_''
   \<and> matcherMatches ''_best_time'' ''dungeon_best_time''
   \<and> \<not> matcherMatches ''_best_time'' ''_best_time_dungeon''
   \<and> matcherMatches ''_x_'' ''_x_void'' \<and> matcherMatches ''_x_'' ''void_x_''
   \<and> \<not> matcherMatches ''purse'' ''purse_coins'' \<and> matcherMatches ''purse'' ''purse''
   \<and> \<not> matcherMatches [] ''purse''
   \<and> isLeaderboardReversed ''dungeon_best_time'' \<and> \<not> isLeaderboardReversed ''kills_zombie''"
  using matcher_convention [of "''deaths_''" "''deaths_void''"]
    matcher_convention [of "''deaths_''" "''void_deaths_''"]
    matcher_convention [of "''_best_time''" "''dungeon_best_time''"]
    matcher_convention [of "''_best_time''" "''_best_time_dungeon''"]
    matcher_convention [of "''_x_''" "''_x_void''"]
    matcher_convention [of "''_x_''" "''void_x_''"]
    matcher_convention [of "''purse''" "''purse_coins''"]
    matcher_convention [of "''purse''" "''purse''"]
    matcher_convention [of "[]" "''purse''"]
    matcher_convention [of "''x''" "''dungeon_best_time''"]
    matcher_convention [of "''x''" "''kills_zombie''"]
  by (simp add: suffix_def reversedLeaderboards_def matcherMatches_def trailingStart_def trailingEnd_def)

text \<open>
  Claim C7 as the specification words it fails: the matcher \<open>_best_time\<close> begins with an
  underscore and matches a name that does not start with it, and the matcher \<open>deaths_\<close>
  ends with an underscore and matches a name that does not end with it.
\<close>

theorem matcher_first_underscore_counterexample:
  "hd ''_best_time'' = CHR ''_'' \<and> matcherMatches ''_best_time'' ''dungeon_best_time''
   \<and> \<not> prefix ''_best_time'' ''dungeon_best_time''
   \<and> isLeaderboardReversed ''dungeon_best_time''
   \<and> last ''deaths_'' = CHR ''_'' \<and> matcherMatches ''deaths_'' ''deaths_void''
   \<and> \<not> suffix ''deaths_'' ''deaths_void''
   \<and> category (categorizeStat ''deaths_void'') = Some ''deaths''"
  by code_simp

section \<open>Properties of the auction history synchronisation\<close>

subsection \<open>The capped push\<close>

lemma pushAuction_length: "length auctions \<le> 100 \<Longrightarrow> length (pushAuction auctions x) \<le> 100"
  by (simp add: pushAuction_def Let_def)

lemma pushAuction_fresh:
  "sa_id x \<notin> sa_id ` set auctions \<Longrightarrow>
   pushAuction auctions x = drop (length (auctions @ [x]) - 100) (auctions @ [x])"
proof -
  assume "sa_id x \<notin> sa_id ` set auctions"
  then have "find (\<lambda>a. sa_id a = sa_id x) auctions = None"
    by (force simp: find_None_iff image_iff)
  then show ?thesis by (simp add: pushAuction_def Let_def)
qed

lemma drop_cap_append:
  "drop (length (drop (length ys - n) ys @ zs) - n) (drop (length ys - n) ys @ zs)
     = drop (length (ys @ zs) - n) (ys @ zs)"
  by (cases "length ys \<le> n") (simp_all add: add.commute)

subsection \<open>The working map of one pass\<close>

lemma keyed_Nil: "keyed []"
  by (simp add: keyed_def)

lemma keyed_update: "keyed al \<Longrightarrow> ia_id d = k \<Longrightarrow> keyed (AList.update k d al)"
  by (simp add: keyed_def distinct_update update_conv')

lemma keyed_loaded:
  "keyed m \<Longrightarrow> keyed (fold (\<lambda>itemAuctions m. AList.update (ia_id itemAuctions) itemAuctions m) ds m)"
  by (induction ds arbitrary: m) (simp_all add: keyed_update)

lemma keyed_mergeAuction: "keyed upd \<Longrightarrow> keyed (mergeAuction a upd)"
  by (simp add: mergeAuction_def Let_def keyed_update)

lemma keyed_mergeLoop: "keyed upd \<Longrightarrow> keyed (mergeLoop prev as upd)"
  by (induction prev as upd rule: mergeLoop.induct) (simp_all add: keyed_mergeAuction)

lemma keyed_ConsD:
  assumes "keyed ((k, d) # al)"
  shows "ia_id d = k" and "map_of al k = None" and "keyed al"
proof -
  have m: "\<And>k' d'. map_of ((k, d) # al) k' = Some d' \<Longrightarrow> ia_id d' = k'"
    using assms unfolding keyed_def by blast
  have dist: "k \<notin> fst ` set al" "distinct (map fst al)"
    using assms unfolding keyed_def by simp_all
  show "ia_id d = k" using m[of k d] by simp
  show none: "map_of al k = None" using dist(1) by (simp add: map_of_eq_None_iff)
  have "ia_id d' = k'" if "map_of al k' = Some d'" for k' d'
  proof -
    have "k' \<noteq> k" using that none by auto
    then have "map_of ((k, d) # al) k' = Some d'" using that by simp
    then show ?thesis by (rule m)
  qed
  then show "keyed al" unfolding keyed_def using dist(2) by blast
qed

lemma fold_updateItemAuction:
  "keyed al \<Longrightarrow> fold updateItemAuction (map snd al) store = store ++ map_of al"
proof (induction al arbitrary: store)
  case Nil
  then show ?case by simp
next
  case (Cons p al)
  obtain k d where p: "p = (k, d)" by (cases p)
  from Cons.prems have kd: "ia_id d = k" and k: "map_of al k = None" and al: "keyed al"
    unfolding p by (rule keyed_ConsD)+
  have "fold updateItemAuction (map snd (p # al)) store
          = fold updateItemAuction (map snd al) (store(k \<mapsto> d))"
    by (simp add: p updateItemAuction_def kd)
  also have "\<dots> = (store(k \<mapsto> d)) ++ map_of al"
    by (rule Cons.IH[OF al])
  also have "\<dots> = store ++ map_of (p # al)"
  proof (rule ext)
    fix i
    show "((store(k \<mapsto> d)) ++ map_of al) i = (store ++ map_of (p # al)) i"
    proof (cases "i = k")
      case True
      then show ?thesis using k by (simp add: p map_add_def)
    next
      case False
      then show ?thesis by (simp add: p map_add_def split: option.split)
    qed
  qed
  finally show ?case .
qed

lemma loaded_from_store:
  "map_of (fold (\<lambda>itemAuctions m. AList.update (ia_id itemAuctions) itemAuctions m) ds m) k = Some d
   \<Longrightarrow> d \<in> set ds \<or> map_of m k = Some d"
proof (induction ds arbitrary: m)
  case Nil
  then show ?case by simp
next
  case (Cons a ds)
  from Cons.prems have "d \<in> set ds \<or> map_of (AList.update (ia_id a) a m) k = Some d"
    using Cons.IH[of "AList.update (ia_id a) a m"] by simp
  then show ?case by (auto simp: update_conv' split: if_splits)
qed

lemma fetchItemsAuctions_set:
  "d \<in> set (fetchItemsAuctions store ids) \<Longrightarrow> \<exists>i. store i = Some d"
  by (auto simp: fetchItemsAuctions_def List.map_filter_def)

lemma capped_mergeAuction:
  assumes "capped upd"
  shows "capped (mergeAuction a upd)"
proof -
  let ?h = "case map_of upd (ea_item_id a) of None \<Rightarrow> [] | Some itemAuctions \<Rightarrow> ia_auctions itemAuctions"
  have "length ?h \<le> 100"
  proof (cases "map_of upd (ea_item_id a)")
    case None
    then show ?thesis by simp
  next
    case (Some d0)
    then show ?thesis using assms by (simp add: capped_def)
  qed
  then have "length (pushAuction ?h (toSimpleAuction a)) \<le> 100"
    by (rule pushAuction_length)
  then show ?thesis
    using assms unfolding capped_def mergeAuction_def Let_def update_conv'
    by (simp split: if_splits)
qed

lemma capped_mergeLoop: "capped upd \<Longrightarrow> capped (mergeLoop prev as upd)"
  by (induction prev as upd rule: mergeLoop.induct) (simp_all add: capped_mergeAuction)

subsection \<open>One pass\<close>

lemma newIdsLoop_fst:
  "set (fst (newIdsLoop prev as (u, i))) = set u \<union> (set (map ea_id as) - set prev)"
  by (induction prev as "(u, i)" arbitrary: u i rule: newIdsLoop.induct)
     (auto simp: setAdd_def)

lemma iteration_fst:
  "fst (iteration ea (prev, store)) = fst (newIdsLoop prev (ended_auctions ea) ([], []))"
  by (simp add: iteration_def Let_def case_prod_beta)

lemma iteration_snd:
  "snd (iteration ea (prev, store))
     = store ++ map_of (mergeLoop prev (ended_auctions ea) (loadedItems ea prev store))"
proof -
  have "keyed (mergeLoop prev (ended_auctions ea) (loadedItems ea prev store))"
    unfolding loadedItems_def by (intro keyed_mergeLoop keyed_loaded keyed_Nil)
  then show ?thesis
    by (simp add: iteration_def Let_def case_prod_beta fold_updateItemAuction loadedItems_def)
qed

lemma capped_loadedItems:
  assumes "\<forall>i d. store i = Some d \<longrightarrow> length (ia_auctions d) \<le> 100"
  shows "capped (loadedItems ea prev store)"
  unfolding capped_def
proof (intro allI impI)
  fix k d
  assume "map_of (loadedItems ea prev store) k = Some d"
  then have "d \<in> set (fetchItemsAuctions store (snd (newIdsLoop prev (ended_auctions ea) ([], []))))"
    unfolding loadedItems_def by (auto dest: loaded_from_store)
  then obtain i where "store i = Some d" by (auto dest: fetchItemsAuctions_set)
  with assms show "length (ia_auctions d) \<le> 100" by blast
qed

lemma iteration_capped:
  assumes "\<forall>i d. store i = Some d \<longrightarrow> length (ia_auctions d) \<le> 100"
    and "snd (iteration ea (prev, store)) i = Some d"
  shows "length (ia_auctions d) \<le> 100"
proof -
  let ?m = "mergeLoop prev (ended_auctions ea) (loadedItems ea prev store)"
  have c: "capped ?m" by (intro capped_mergeLoop capped_loadedItems assms(1))
  from assms(2) have "map_of ?m i = Some d \<or> store i = Some d"
    by (auto simp: iteration_snd map_add_Some_iff)
  then show ?thesis using c assms(1) unfolding capped_def by blast
qed

subsection \<open>A run of new auctions for one item\<close>

lemma mergeAuction_history:
  "map_of (mergeAuction a upd) (ea_item_id a)
     = Some \<lparr>ia_id = ea_item_id a,
             ia_auctions = pushAuction (history upd (ea_item_id a)) (toSimpleAuction a)\<rparr>"
  by (simp add: mergeAuction_def Let_def update_conv' history_def)

lemma sa_id_toSimpleAuction: "sa_id (toSimpleAuction a) = ea_id a"
  by (simp add: toSimpleAuction_def)

lemma mergeLoop_run:
  assumes "as \<noteq> []" and "distinct (map ea_id as)" and "\<forall>a\<in>set as. ea_item_id a = it"
    and "set (map ea_id as) \<inter> sa_id ` set (history upd it) = {}"
  shows "map_of (mergeLoop [] as upd) it
           = Some \<lparr>ia_id = it,
                   ia_auctions = drop (length (history upd it @ map toSimpleAuction as) - 100)
                                   (history upd it @ map toSimpleAuction as)\<rparr>"
  using assms
proof (induction as arbitrary: upd)
  case Nil
  then show ?case by simp
next
  case (Cons a as)
  let ?h = "history upd it"
  let ?x = "toSimpleAuction a"
  let ?upd = "mergeAuction a upd"
  have it: "ea_item_id a = it" using Cons.prems(3) by simp
  have fresh: "sa_id ?x \<notin> sa_id ` set ?h"
    using Cons.prems(4) by (auto simp: sa_id_toSimpleAuction)
  have push: "pushAuction ?h ?x = drop (length (?h @ [?x]) - 100) (?h @ [?x])"
    by (rule pushAuction_fresh[OF fresh])
  have m: "map_of ?upd it = Some \<lparr>ia_id = it, ia_auctions = pushAuction ?h ?x\<rparr>"
    using mergeAuction_history[of a upd] by (simp add: it)
  have h0: "history ?upd it = pushAuction ?h ?x"
    unfolding history_def[of ?upd it] m by simp
  have h': "history ?upd it = drop (length (?h @ [?x]) - 100) (?h @ [?x])"
    unfolding h0 by (rule push)
  show ?case
  proof (cases "as = []")
    case True
    then show ?thesis using m push by simp
  next
    case False
    have "set (history ?upd it) \<subseteq> set (?h @ [?x])"
      unfolding h' by (rule set_drop_subset)
    then have "sa_id ` set (history ?upd it) \<subseteq> sa_id ` set (?h @ [?x])"
      by (rule image_mono)
    then have sub: "sa_id ` set (history ?upd it) \<subseteq> insert (ea_id a) (sa_id ` set ?h)"
      by (simp add: sa_id_toSimpleAuction)
    have d1: "ea_id a \<notin> set (map ea_id as)" using Cons.prems(2) by simp
    have d2: "set (map ea_id as) \<inter> sa_id ` set ?h = {}" using Cons.prems(4) by auto
    have "set (map ea_id as) \<inter> insert (ea_id a) (sa_id ` set ?h) = {}"
      using d1 d2 by blast
    then have disj: "set (map ea_id as) \<inter> sa_id ` set (history ?upd it) = {}"
      using sub by blast
    have "map_of (mergeLoop [] as ?upd) it
            = Some \<lparr>ia_id = it,
                    ia_auctions = drop (length (history ?upd it @ map toSimpleAuction as) - 100)
                                    (history ?upd it @ map toSimpleAuction as)\<rparr>"
      using Cons.IH[OF False _ _ disj] Cons.prems(2,3) by simp
    also have "drop (length (history ?upd it @ map toSimpleAuction as) - 100)
                 (history ?upd it @ map toSimpleAuction as)
               = drop (length ((?h @ [?x]) @ map toSimpleAuction as) - 100)
                   ((?h @ [?x]) @ map toSimpleAuction as)"
      unfolding h' by (rule drop_cap_append)
    finally show ?thesis by simp
  qed
qed

lemma newIdsLoop_snd_one:
  "\<forall>a\<in>set as. ea_item_id a = it \<Longrightarrow> set i \<subseteq> {it} \<Longrightarrow>
   set (snd (newIdsLoop [] as (u, i))) \<subseteq> {it}"
  by (induction as arbitrary: u i) (auto simp: setAdd_def)

lemma iteration_run:
  assumes "as \<noteq> []" and "distinct (map ea_id as)" and "\<forall>a\<in>set as. ea_item_id a = it"
  shows "snd (iteration \<lparr>ended_auctions = as, ended_lastUpdated = t\<rparr> ([], Map.empty)) it
           = Some \<lparr>ia_id = it,
                   ia_auctions = drop (length as - 100) (map toSimpleAuction as)\<rparr>"
proof -
  let ?ea = "\<lparr>ended_auctions = as, ended_lastUpdated = t\<rparr>"
  have l: "loadedItems ?ea [] Map.empty = []"
    by (simp add: loadedItems_def fetchItemsAuctions_def List.map_filter_def)
  have "map_of (mergeLoop [] as []) it
          = Some \<lparr>ia_id = it,
                  ia_auctions = drop (length (history [] it @ map toSimpleAuction as) - 100)
                                  (history [] it @ map toSimpleAuction as)\<rparr>"
    by (rule mergeLoop_run[OF assms]) (simp add: history_def)
  then show ?thesis
    by (simp add: iteration_snd l history_def drop_map)
qed

lemma iterations_capped:
  "\<forall>i d. snd st i = Some d \<longrightarrow> length (ia_auctions d) \<le> 100 \<Longrightarrow>
   \<forall>i d. snd (iterations snapshots st) i = Some d \<longrightarrow> length (ia_auctions d) \<le> 100"
  unfolding iterations_def
proof (induction snapshots arbitrary: st)
  case Nil
  then show ?case by simp
next
  case (Cons ea snapshots)
  have "\<forall>i d. snd (iteration ea st) i = Some d \<longrightarrow> length (ia_auctions d) \<le> 100"
    using iteration_capped[of "snd st" ea "fst st"] Cons.prems by auto
  then show ?case using Cons.IH[of "iteration ea st"] by simp
qed

text \<open>
  Claim C4. Passes of the loop keep every stored history at no more than a hundred
  records: if the collection satisfies the bound (as the empty one does), it satisfies it
  after any number of passes, whatever the snapshots and the previous ids. And a pass
  that merges 150 new auctions of one item (different ids, nothing stored before) leaves
  exactly the last hundred of them, in the order of arrival: the first fifty are dropped.
\<close>

theorem auction_history_cap:
  "((\<forall>i d. snd st i = Some d \<longrightarrow> length (ia_auctions d) \<le> 100) \<longrightarrow>
      (\<forall>i d. snd (iterations snapshots st) i = Some d \<longrightarrow> length (ia_auctions d) \<le> 100))
   \<and> (length as = 150 \<and> distinct (map ea_id as) \<and> (\<forall>a\<in>set as. ea_item_id a = it) \<longrightarrow>
        snd (iterations [\<lparr>ended_auctions = as, ended_lastUpdated = t\<rparr>] ([], Map.empty)) it
          = Some \<lparr>ia_id = it, ia_auctions = map toSimpleAuction (drop 50 as)\<rparr>)"
proof (intro conjI impI)
  assume "\<forall>i d. snd st i = Some d \<longrightarrow> length (ia_auctions d) \<le> 100"
  then show "\<forall>i d. snd (iterations snapshots st) i = Some d \<longrightarrow> length (ia_auctions d) \<le> 100"
    by (rule iterations_capped)
next
  assume a: "length as = 150 \<and> distinct (map ea_id as) \<and> (\<forall>a\<in>set as. ea_item_id a = it)"
  then have "as \<noteq> []" by auto
  then show "snd (iterations [\<lparr>ended_auctions = as, ended_lastUpdated = t\<rparr>] ([], Map.empty)) it
          = Some \<lparr>ia_id = it, ia_auctions = map toSimpleAuction (drop 50 as)\<rparr>"
    using a iteration_run[of as it t] by (simp add: iterations_def drop_map)
qed

text \<open>
  C4 at concrete inputs: a stored history of one record receiving a new auction, and
  150 new auctions of the item \<open>x\<close> on an empty collection.
\<close>

theorem auction_history_cap_witness:
  "(case snd (iterations
        [\<lparr>ended_auctions = [\<lparr>ea_id = ''b'', ea_item_id = ''x'', ea_coins = 5,
                               ea_timestamp = 2500, ea_bin = True\<rparr>],
          ended_lastUpdated = 3000\<rparr>]
        ([], [''x'' \<mapsto> \<lparr>ia_id = ''x'',
                ia_auctions = [\<lparr>sa_s = True, sa_coins = 1, sa_id = ''a'', sa_ts = 1,
                                sa_bin = False\<rparr>]\<rparr>])) ''x'' of
      None \<Rightarrow> True
    | Some d \<Rightarrow> length (ia_auctions d) \<le> 100)
   \<and> snd (iterations
        [\<lparr>ended_auctions =
             map (\<lambda>n. \<lparr>ea_id = replicate (Suc n) CHR ''a'', ea_item_id = ''x'', ea_coins = 1,
                        ea_timestamp = 1000 * int n, ea_bin = False\<rparr>) [0..<150],
          ended_lastUpdated = 150000\<rparr>]
        ([], Map.empty)) ''x''
      = Some \<lparr>ia_id = ''x'',
              ia_auctions = map toSimpleAuction
                (drop 50 (map (\<lambda>n. \<lparr>ea_id = replicate (Suc n) CHR ''a'', ea_item_id = ''x'',
                                     ea_coins = 1, ea_timestamp = 1000 * int n,
                                     ea_bin = False\<rparr>) [0..<150]))\<rparr>"
proof -
  let ?st = "([] :: string list, [''x'' \<mapsto> \<lparr>ia_id = ''x'',
                ia_auctions = [\<lparr>sa_s = True, sa_coins = 1, sa_id = ''a'', sa_ts = 1,
                                sa_bin = False\<rparr>]\<rparr>])"
  let ?as = "map (\<lambda>n. \<lparr>ea_id = replicate (Suc n) CHR ''a'', ea_item_id = ''x'', ea_coins = 1,
                        ea_timestamp = 1000 * int n, ea_bin = False\<rparr>) [0..<150]"
  have h1: "\<forall>i d. snd ?st i = Some d \<longrightarrow> length (ia_auctions d) \<le> 100"
    by (auto split: if_splits)
  have inj: "inj_on (\<lambda>n. replicate (Suc n) CHR ''a'') (set [0..<150])"
    by (rule inj_onI) (auto dest: arg_cong[where f = length])
  have h2: "length ?as = 150 \<and> distinct (map ea_id ?as) \<and> (\<forall>a\<in>set ?as. ea_item_id a = ''x'')"
    using inj by (simp add: distinct_map comp_def)
  show ?thesis
    using auction_history_cap[of ?st _ ?as "''x''" 150000] h1 h2
    by (simp split: option.split)
qed

lemma iteration_fst_st:
  "fst (iteration ea st) = fst (newIdsLoop (fst st) (ended_auctions ea) ([], []))"
  by (simp add: iteration_def Let_def case_prod_beta)

lemma iteration_previous_ids:
  "set (fst (iteration ea (prev, store))) = set (map ea_id (ended_auctions ea)) - set prev"
  by (simp add: iteration_fst_st newIdsLoop_fst)

text \<open>
  Claim C5, evaluated on the code. The pass ends with
  \<^verbatim>\<open>previousAuctionIds = newAuctionUuids\<close>: the ids kept for the next diff are those that
  were new in this pass, not all the ids of the snapshot. When the upstream returns the
  same snapshot three times, the second pass leaves no previous id at all, although the
  snapshot holds the auction \<open>a\<close>, and the third pass takes \<open>a\<close> for new again.
\<close>

theorem previousAuctionIds_three_passes:
  "(let snap = \<lparr>ended_auctions = [\<lparr>ea_id = ''a'', ea_item_id = ''x'', ea_coins = 5,
                                   ea_timestamp = 2500, ea_bin = True\<rparr>],
                ended_lastUpdated = 3000\<rparr>;
        st1 = iteration snap ([], Map.empty);
        st2 = iteration snap st1;
        st3 = iteration snap st2
    in fst st1 = [''a''] \<and> fst st2 = [] \<and> fst st3 = [''a'']
       \<and> set (fst st2) \<noteq> set (map ea_id (ended_auctions snap)))"
  by (simp add: iteration_fst_st Let_def setAdd_def)

text \<open>
  Claim C6, as the code has it. The delay handed to the timer is
  \<open>60 s - (now - lastUpdated) + 10 s\<close> as computed, with no clamp: it is the clamped value
  of the specification exactly when the snapshot is at most 70 seconds old, and it is
  negative when the snapshot is older.
\<close>

theorem refetchIn_unclamped:
  "refetchIn now lastUpdated = 60 * 1000 - (now - lastUpdated) + 10 * 1000
   \<and> (refetchIn now lastUpdated = max 0 (60 * 1000 - (now - lastUpdated) + 10 * 1000)
        \<longleftrightarrow> now - lastUpdated \<le> 70000)
   \<and> (refetchIn now lastUpdated < 0 \<longleftrightarrow> 70000 < now - lastUpdated)"
  by (auto simp: refetchIn_def Let_def)

text \<open>
  Claim C6 as stated fails for a snapshot that is 80 seconds old: the computed delay is
  ten seconds below zero, not zero.
\<close>

theorem refetchIn_negative_counterexample:
  "refetchIn 80000 0 = - 10000
   \<and> refetchIn 80000 0 \<noteq> max 0 (60 * 1000 - (80000 - 0) + 10 * 1000)"
  by (simp add: refetchIn_def Let_def)

section \<open>Properties of the cached election data\<close>

lemma runElection_Nil: "runElection [] st = st"
  by (simp add: runElection_def)

lemma runElection_Cons: "runElection (e # es) st = runElection es (fetchElection e st)"
  by (simp add: runElection_def)

lemma runElection_append: "runElection (es @ es') st = runElection es' (runElection es st)"
  by (simp add: runElection_def)

lemma coldInvariant_initial: "coldInvariant initialElection"
  by (simp add: coldInvariant_def initialElection_def)

lemma coldInvariant_Call:
  assumes "coldInvariant st"
  shows "coldInvariant (fetchElection (Call c now) st)"
proof (cases "cachedElectionData st")
  case (Some v)
  then show ?thesis by (simp add: coldInvariant_def startRequest_def)
next
  case None
  show ?thesis
  proof (cases "calls st c")
    case (Some a)
    then show ?thesis using assms by simp
  next
    case n: None
    show ?thesis
    proof (cases "isFetchingElection st")
      case True
      with assms None have "upstreamRequests st = 1"
        and "\<forall>c c'. calls st c = Some Fetching \<and> calls st c' = Some Fetching \<longrightarrow> c = c'"
        and "\<forall>c election. calls st c \<noteq> Some (Returned election)"
        by (auto simp: coldInvariant_def)
      then show ?thesis using None n True by (simp add: coldInvariant_def)
    next
      case False
      with assms None have "upstreamRequests st = 0" and "calls st = Map.empty"
        by (auto simp: coldInvariant_def)
      then show ?thesis using None n False by (simp add: coldInvariant_def startRequest_def)
    qed
  qed
qed

lemma coldInvariant_Tick:
  assumes "coldInvariant st"
  shows "coldInvariant (fetchElection (Tick c) st)"
proof (cases "cachedElectionData st")
  case (Some v)
  then show ?thesis by (simp add: coldInvariant_def startRequest_def)
next
  case None
  then show ?thesis using assms by simp
qed

lemma coldInvariant_Response:
  assumes "coldInvariant st"
  shows "coldInvariant (fetchElection (Response c r) st)"
proof (cases "calls st c = Some Fetching")
  case False
  then show ?thesis using assms by simp
next
  case True
  show ?thesis
  proof (cases r)
    case (Some election)
    then show ?thesis using True by (simp add: coldInvariant_def)
  next
    case None
    show ?thesis
    proof (cases "cachedElectionData st")
      case (Some v)
      then show ?thesis using True None by (simp add: coldInvariant_def)
    next
      case n: None
      with assms True have "upstreamRequests st = 1" and "isFetchingElection st"
        and "\<forall>c c'. calls st c = Some Fetching \<and> calls st c' = Some Fetching \<longrightarrow> c = c'"
        and "\<forall>c election. calls st c \<noteq> Some (Returned election)"
        by (auto simp: coldInvariant_def)
      then show ?thesis using True None n by (simp add: coldInvariant_def)
    qed
  qed
qed

lemma coldInvariant_step: "coldInvariant st \<Longrightarrow> coldInvariant (fetchElection e st)"
  by (cases e) (simp_all only: coldInvariant_Call coldInvariant_Tick coldInvariant_Response)

lemma coldInvariant_run: "coldInvariant st \<Longrightarrow> coldInvariant (runElection es st)"
  by (induction es arbitrary: st) (simp_all add: runElection_Nil runElection_Cons coldInvariant_step)

lemma stuckElection_step:
  assumes "stuckElection st"
  shows "stuckElection (fetchElection e st)
         \<and> upstreamRequests (fetchElection e st) = upstreamRequests st"
proof (cases e)
  case (Call c now)
  then show ?thesis using assms by (simp add: stuckElection_def)
next
  case (Tick c)
  then show ?thesis using assms by (simp add: stuckElection_def)
next
  case (Response c r)
  then show ?thesis using assms by (simp add: stuckElection_def)
qed

lemma stuckElection_run:
  "stuckElection st \<Longrightarrow>
   stuckElection (runElection es st) \<and> upstreamRequests (runElection es st) = upstreamRequests st"
proof (induction es arbitrary: st)
  case Nil
  then show ?case by (simp add: runElection_Nil)
next
  case (Cons e es)
  from stuckElection_step[OF Cons.prems, of e] Cons.IH[of "fetchElection e st"]
  show ?case by (simp add: runElection_Cons)
qed

text \<open>
  Claim C2, as the code has it. Invocations are coalesced only on a cold cache: in every
  schedule from the initial state, as long as nothing is cached, at most one upstream
  request has been made, at most one invocation is at the upstream, and none has returned;
  an invocation that finds the cache cold and the flag up suspends without a request, and
  its polling changes nothing while nothing is cached. An invocation that finds a value
  that has not expired returns it, with no request and no suspension. An invocation that
  finds an expired value never waits, whether or not a request is in flight: it makes a
  request of its own.
\<close>

theorem election_cold_start_single_request:
  "(cachedElectionData (runElection es initialElection) = None \<longrightarrow>
      upstreamRequests (runElection es initialElection) \<le> 1
      \<and> (\<forall>c c'. calls (runElection es initialElection) c = Some Fetching
                 \<and> calls (runElection es initialElection) c' = Some Fetching \<longrightarrow> c = c')
      \<and> (\<forall>c election. calls (runElection es initialElection) c \<noteq> Some (Returned election)))
   \<and> (calls st c = None \<and> cachedElectionData st = None \<and> isFetchingElection st \<longrightarrow>
        fetchElection (Call c now) st = st\<lparr>calls := (calls st)(c \<mapsto> Waiting)\<rparr>)
   \<and> (calls st c = Some Waiting \<and> cachedElectionData st = None \<longrightarrow>
        fetchElection (Tick c) st = st)
   \<and> (calls st c = None \<and> cachedElectionData st = Some election \<and> now < nextElectionUpdate st \<longrightarrow>
        fetchElection (Call c now) st = st\<lparr>calls := (calls st)(c \<mapsto> Returned election)\<rparr>)
   \<and> (calls st c = None \<and> cachedElectionData st = Some election \<and> nextElectionUpdate st \<le> now \<longrightarrow>
        calls (fetchElection (Call c now) st) c = Some Fetching
        \<and> upstreamRequests (fetchElection (Call c now) st) = Suc (upstreamRequests st))"
proof -
  let ?s = "runElection es initialElection"
  have "coldInvariant ?s" by (rule coldInvariant_run[OF coldInvariant_initial])
  then have 1: "cachedElectionData ?s = None \<longrightarrow>
      upstreamRequests ?s \<le> 1
      \<and> (\<forall>c c'. calls ?s c = Some Fetching \<and> calls ?s c' = Some Fetching \<longrightarrow> c = c')
      \<and> (\<forall>c election. calls ?s c \<noteq> Some (Returned election))"
    unfolding coldInvariant_def by auto
  have 2: "calls st c = None \<and> cachedElectionData st = None \<and> isFetchingElection st \<longrightarrow>
        fetchElection (Call c now) st = st\<lparr>calls := (calls st)(c \<mapsto> Waiting)\<rparr>"
    by simp
  have 3: "calls st c = Some Waiting \<and> cachedElectionData st = None \<longrightarrow>
        fetchElection (Tick c) st = st"
    by simp
  have 4: "calls st c = None \<and> cachedElectionData st = Some election \<and> now < nextElectionUpdate st \<longrightarrow>
        fetchElection (Call c now) st = st\<lparr>calls := (calls st)(c \<mapsto> Returned election)\<rparr>"
    by simp
  have 5: "calls st c = None \<and> cachedElectionData st = Some election \<and> nextElectionUpdate st \<le> now \<longrightarrow>
        calls (fetchElection (Call c now) st) c = Some Fetching
        \<and> upstreamRequests (fetchElection (Call c now) st) = Suc (upstreamRequests st)"
    by (simp add: startRequest_def)
  from 1 2 3 4 5 show ?thesis by blast
qed

text \<open>
  Claim C2 as stated fails on an expired value: two invocations at the time 700000, when
  the value cached until 600000 has expired, are both at the upstream at once (three
  requests in all, two of them for this one expiry), and they return different data.
\<close>

theorem election_expired_counterexample:
  "upstreamRequests (runElection
      [Call 0 0, Response 0 (Some \<lparr>el_lastUpdated = 0, el_payload = 1\<rparr>),
       Call 1 700000, Call 2 700000] initialElection) = 3
   \<and> calls (runElection
      [Call 0 0, Response 0 (Some \<lparr>el_lastUpdated = 0, el_payload = 1\<rparr>),
       Call 1 700000, Call 2 700000] initialElection) 1 = Some Fetching
   \<and> calls (runElection
      [Call 0 0, Response 0 (Some \<lparr>el_lastUpdated = 0, el_payload = 1\<rparr>),
       Call 1 700000, Call 2 700000] initialElection) 2 = Some Fetching
   \<and> calls (runElection
      [Call 0 0, Response 0 (Some \<lparr>el_lastUpdated = 0, el_payload = 1\<rparr>),
       Call 1 700000, Call 2 700000,
       Response 1 (Some \<lparr>el_lastUpdated = 650, el_payload = 2\<rparr>),
       Response 2 (Some \<lparr>el_lastUpdated = 660, el_payload = 3\<rparr>)] initialElection) 1
       = Some (Returned \<lparr>el_lastUpdated = 650, el_payload = 2\<rparr>)
   \<and> calls (runElection
      [Call 0 0, Response 0 (Some \<lparr>el_lastUpdated = 0, el_payload = 1\<rparr>),
       Call 1 700000, Call 2 700000,
       Response 1 (Some \<lparr>el_lastUpdated = 650, el_payload = 2\<rparr>),
       Response 2 (Some \<lparr>el_lastUpdated = 660, el_payload = 3\<rparr>)] initialElection) 2
       = Some (Returned \<lparr>el_lastUpdated = 660, el_payload = 3\<rparr>)"
  by (simp add: runElection_def initialElection_def startRequest_def)

text \<open>C2 on concrete schedules: a cold start with three invocations, a hit, an expiry.\<close>

theorem election_cold_start_single_request_witness:
  "upstreamRequests (runElection [Call 0 0, Call 1 0, Call 2 50, Tick 1, Tick 2] initialElection) \<le> 1
   \<and> calls (runElection [Call 0 0, Call 1 0, Call 2 50, Tick 1, Tick 2] initialElection) 0 = Some Fetching
   \<and> fetchElection (Call 1 0) (runElection [Call 0 0] initialElection)
       = (runElection [Call 0 0] initialElection)
           \<lparr>calls := (calls (runElection [Call 0 0] initialElection))(1 \<mapsto> Waiting)\<rparr>
   \<and> fetchElection (Tick 1) (runElection [Call 0 0, Call 1 0] initialElection)
       = runElection [Call 0 0, Call 1 0] initialElection
   \<and> fetchElection (Call 1 5000)
        (runElection [Call 0 0, Response 0 (Some \<lparr>el_lastUpdated = 0, el_payload = 1\<rparr>)]
           initialElection)
       = (runElection [Call 0 0, Response 0 (Some \<lparr>el_lastUpdated = 0, el_payload = 1\<rparr>)]
           initialElection)
           \<lparr>calls := (calls (runElection
               [Call 0 0, Response 0 (Some \<lparr>el_lastUpdated = 0, el_payload = 1\<rparr>)]
               initialElection))(1 \<mapsto> Returned \<lparr>el_lastUpdated = 0, el_payload = 1\<rparr>)\<rparr>
   \<and> upstreamRequests (fetchElection (Call 1 700000)
        (runElection [Call 0 0, Response 0 (Some \<lparr>el_lastUpdated = 0, el_payload = 1\<rparr>)]
           initialElection)) = 2"
proof -
  let ?e = "\<lparr>el_lastUpdated = 0, el_payload = 1\<rparr>"
  let ?s1 = "runElection [Call 0 0] initialElection"
  let ?s2 = "runElection [Call 0 0, Call 1 0] initialElection"
  let ?s3 = "runElection [Call 0 0, Response 0 (Some ?e)] initialElection"
  have c1: "cachedElectionData (runElection [Call 0 0, Call 1 0, Call 2 50, Tick 1, Tick 2] initialElection) = None"
    by (simp add: runElection_def initialElection_def startRequest_def)
  have c2: "calls ?s1 1 = None \<and> cachedElectionData ?s1 = None \<and> isFetchingElection ?s1"
    by (simp add: runElection_def initialElection_def startRequest_def)
  have c3: "calls ?s2 1 = Some Waiting \<and> cachedElectionData ?s2 = None"
    by (simp add: runElection_def initialElection_def startRequest_def)
  have c4: "calls ?s3 1 = None \<and> cachedElectionData ?s3 = Some ?e \<and> 5000 < nextElectionUpdate ?s3"
    by (simp add: runElection_def initialElection_def startRequest_def)
  have c5: "calls ?s3 1 = None \<and> cachedElectionData ?s3 = Some ?e \<and> nextElectionUpdate ?s3 \<le> 700000"
    by (simp add: runElection_def initialElection_def startRequest_def)
  have u: "upstreamRequests ?s3 = 1"
    by (simp add: runElection_def initialElection_def startRequest_def)
  have f: "calls (runElection [Call 0 0, Call 1 0, Call 2 50, Tick 1, Tick 2] initialElection) 0 = Some Fetching"
    by (simp add: runElection_def initialElection_def startRequest_def)
  let ?es = "[Call 0 0, Call 1 0, Call 2 50, Tick 1, Tick 2]"
  have t1: "upstreamRequests (runElection ?es initialElection) \<le> 1"
    using election_cold_start_single_request[of ?es ?s1 1 0 ?e, THEN conjunct1] c1 by blast
  have t2: "fetchElection (Call 1 0) ?s1 = ?s1\<lparr>calls := (calls ?s1)(1 \<mapsto> Waiting)\<rparr>"
    using election_cold_start_single_request[of "[]" ?s1 1 0 ?e, THEN conjunct2, THEN conjunct1] c2
    by blast
  have t3: "fetchElection (Tick 1) ?s2 = ?s2"
    using election_cold_start_single_request[of "[]" ?s2 1 0 ?e,
        THEN conjunct2, THEN conjunct2, THEN conjunct1] c3
    by blast
  have t4: "fetchElection (Call 1 5000) ?s3 = ?s3\<lparr>calls := (calls ?s3)(1 \<mapsto> Returned ?e)\<rparr>"
    using election_cold_start_single_request[of "[]" ?s3 1 5000 ?e,
        THEN conjunct2, THEN conjunct2, THEN conjunct2, THEN conjunct1] c4
    by blast
  have t5: "upstreamRequests (fetchElection (Call 1 700000) ?s3) = Suc (upstreamRequests ?s3)"
    using election_cold_start_single_request[of "[]" ?s3 1 700000 ?e,
        THEN conjunct2, THEN conjunct2, THEN conjunct2, THEN conjunct2] c5
    by blast
  show ?thesis using t1 f t2 t3 t4 t5 u by simp
qed

text \<open>
  Claim C3, evaluated on the code. When the request of the first invocation on a cold
  cache throws, the exception leaves \<^verbatim>\<open>fetchElection\<close> before
  \<^verbatim>\<open>isFetchingElection = false\<close>: the failure is propagated and nothing is cached, but the
  flag stays up. A later invocation then suspends in the polling loop, and whatever
  happens afterwards no request is made again and no invocation returns.
\<close>

theorem election_failure_leaves_flag_set:
  "isFetchingElection (runElection [Call 0 0, Response 0 None] initialElection)
   \<and> cachedElectionData (runElection [Call 0 0, Response 0 None] initialElection) = None
   \<and> calls (runElection [Call 0 0, Response 0 None] initialElection) 0 = Some Thrown
   \<and> calls (runElection [Call 0 0, Response 0 None, Call 1 100, Tick 1, Tick 1] initialElection) 1
       = Some Waiting
   \<and> (\<forall>es. isFetchingElection (runElection ([Call 0 0, Response 0 None] @ es) initialElection)
          \<and> cachedElectionData (runElection ([Call 0 0, Response 0 None] @ es) initialElection) = None
          \<and> upstreamRequests (runElection ([Call 0 0, Response 0 None] @ es) initialElection) = 1
          \<and> (\<forall>c election. calls (runElection ([Call 0 0, Response 0 None] @ es) initialElection) c
                 \<noteq> Some (Returned election)))"
proof -
  let ?st = "runElection [Call 0 0, Response 0 None] initialElection"
  have st: "?st = \<lparr>isFetchingElection = True, cachedElectionData = None, nextElectionUpdate = 0,
      calls = [0 \<mapsto> Thrown], upstreamRequests = 1\<rparr>"
    by (simp add: runElection_def initialElection_def startRequest_def)
  have stuck: "stuckElection ?st" unfolding st by (simp add: stuckElection_def)
  have "\<forall>es. isFetchingElection (runElection es ?st) \<and> cachedElectionData (runElection es ?st) = None
          \<and> upstreamRequests (runElection es ?st) = 1
          \<and> (\<forall>c election. calls (runElection es ?st) c \<noteq> Some (Returned election))"
  proof
    fix es
    from stuckElection_run[OF stuck, of es]
    show "isFetchingElection (runElection es ?st) \<and> cachedElectionData (runElection es ?st) = None
          \<and> upstreamRequests (runElection es ?st) = 1
          \<and> (\<forall>c election. calls (runElection es ?st) c \<noteq> Some (Returned election))"
      unfolding stuckElection_def by (simp add: st)
  qed
  moreover have "calls (runElection [Call 0 0, Response 0 None, Call 1 100, Tick 1, Tick 1] initialElection) 1
       = Some Waiting"
    by (simp add: runElection_def initialElection_def startRequest_def)
  ultimately show ?thesis
    unfolding runElection_append using st by simp
qed

section \<open>Properties of the member leaderboards\<close>

subsection \<open>Applicable attributes\<close>

lemma exampleAttributes:
  "getMemberLeaderboardAttributes exampleMember =
     [(''kills_zombie'', 50), (''deaths'', 3), (''collection_wheat'', 1000),
      (''skill_farming'', 45 / 2), (''fairy_souls'', 10), (''first_join'', 1600000000000),
      (''purse'', 25 / 2), (''visited_zones'', 2)]"
  by (simp add: getMemberLeaderboardAttributes_def getMemberCollectionAttributes_def
      getMemberSkillAttributes_def exampleMember_def)

lemma requirement_not_full:
  "cachedRawLeaderboards db name = None \<Longrightarrow> memberLeaderboardsCollection db = [] \<Longrightarrow>
   getMemberLeaderboardRequirement True name db
     = (Inr Null, db\<lparr>cachedRawLeaderboards := (cachedRawLeaderboards db)(name \<mapsto> [])\<rparr>)"
  by (simp add: getMemberLeaderboardRequirement_def fetchMemberLeaderboardRaw_def
      findSortLimit_def leaderboardMax_def)

text \<open>
  Claim C1, evaluated on the code. On an empty collection no leaderboard is full: the
  requirement of \<open>kills_zombie\<close> is \<^verbatim>\<open>null\<close>, and the leaderboard is not reversed. The
  test then reads \<^verbatim>\<open>(!requirement || leaderboardReversed) ? 50 < null : 50 > null\<close>, that
  is \<^verbatim>\<open>50 < 0\<close>: the value 50 of the member is not included, and neither is any other of
  its attributes.
\<close>

theorem applicable_attributes_empty_leaderboard:
  "fst (getMemberLeaderboardRequirement True ''kills_zombie'' emptyDatabase) = Inr Null
   \<and> \<not> isLeaderboardReversed ''kills_zombie''
   \<and> map_of (getMemberLeaderboardAttributes exampleMember) ''kills_zombie'' = Some 50
   \<and> fst (getApplicableAttributes True exampleMember emptyDatabase) = Inr []"
  by (simp add: getApplicableAttributes_def exampleAttributes requirement_not_full
      emptyDatabase_def isLeaderboardReversed_def reversedLeaderboards_def
      trailingStart_def trailingEnd_def suffix_def)

subsection \<open>What the leaderboard operations leave alone\<close>

lemma fetchMemberLeaderboardRaw_frame:
  "client (snd (fetchMemberLeaderboardRaw up name db)) = client db
   \<and> recentlyUpdated (snd (fetchMemberLeaderboardRaw up name db)) = recentlyUpdated db
   \<and> memberLeaderboardsCollection (snd (fetchMemberLeaderboardRaw up name db))
       = memberLeaderboardsCollection db"
  by (simp add: fetchMemberLeaderboardRaw_def Let_def split: option.split)

lemma getMemberLeaderboardRequirement_snd:
  "snd (getMemberLeaderboardRequirement up name db) = snd (fetchMemberLeaderboardRaw up name db)"
  by (simp add: getMemberLeaderboardRequirement_def split: prod.split sum.split)

lemma applicableLoop_frame:
  "client (snd (applicableLoop up entries acc db)) = client db
   \<and> recentlyUpdated (snd (applicableLoop up entries acc db)) = recentlyUpdated db
   \<and> memberLeaderboardsCollection (snd (applicableLoop up entries acc db))
       = memberLeaderboardsCollection db"
proof (induction up entries acc db rule: applicableLoop.induct)
  case (1 up acc db)
  then show ?case by simp
next
  case (2 up leaderboard attributeValue rest acc db)
  obtain r db' where g: "getMemberLeaderboardRequirement up leaderboard db = (r, db')"
    by (cases "getMemberLeaderboardRequirement up leaderboard db")
  then have db': "db' = snd (fetchMemberLeaderboardRaw up leaderboard db)"
    using getMemberLeaderboardRequirement_snd[of up leaderboard db] by simp
  show ?case
  proof (cases r)
    case (Inl e)
    then show ?thesis using g db' fetchMemberLeaderboardRaw_frame[of up leaderboard db] by simp
  next
    case (Inr requirement)
    then show ?thesis
      using g db' fetchMemberLeaderboardRaw_frame[of up leaderboard db]
        "2.IH"[OF g[symmetric] Inr refl]
      by (simp add: Let_def)
  qed
qed

lemma patchLoop_frame:
  "client (snd (patchLoop up now u attrs entries db)) = client db
   \<and> recentlyUpdated (snd (patchLoop up now u attrs entries db)) = recentlyUpdated db
   \<and> memberLeaderboardsCollection (snd (patchLoop up now u attrs entries db))
       = memberLeaderboardsCollection db"
proof (induction up now u attrs entries db rule: patchLoop.induct)
  case (1 up now u attrs db)
  then show ?case by simp
next
  case (2 up now u attrs attributeName attributeValue rest db)
  obtain r db' where f: "fetchMemberLeaderboardRaw up attributeName db = (r, db')"
    by (cases "fetchMemberLeaderboardRaw up attributeName db")
  show ?case
  proof (cases r)
    case (Inl e)
    then show ?thesis using f fetchMemberLeaderboardRaw_frame[of up attributeName db] by simp
  next
    case (Inr existing)
    then show ?thesis
      using f fetchMemberLeaderboardRaw_frame[of up attributeName db]
        "2.IH"[OF f[symmetric] Inr]
      by simp
  qed
qed

lemma commitMember_frame:
  "client (snd (commitMember up now member prof attrs db)) = client db
   \<and> recentlyUpdated (snd (commitMember up now member prof attrs db)) = recentlyUpdated db"
  by (simp add: commitMember_def patchLoop_frame)

subsection \<open>The served views\<close>

lemma ranked_iff:
  "hasAttribute name a \<Longrightarrow> hasAttribute name b \<Longrightarrow>
   ranked name a b \<longleftrightarrow> rankKey name a \<le> rankKey name b"
  by (auto simp: ranked_def rankKey_def hasAttribute_def split: option.splits)

lemma sorted_rankKey_ranked:
  assumes "list_all (hasAttribute name) l"
  shows "sorted_wrt (ranked name) l \<longleftrightarrow> sorted (map (rankKey name) l)"
  using assms
proof (induction l)
  case Nil
  then show ?case by simp
next
  case (Cons a l)
  then have "\<forall>b\<in>set l. ranked name a b \<longleftrightarrow> rankKey name a \<le> rankKey name b"
    by (simp add: list_all_iff ranked_iff)
  with Cons show ?case by simp
qed

lemma servedView_sorted_take:
  assumes "list_all (hasAttribute name) xs"
  shows "servedView name (take 100 (sort_key (rankKey name) xs))"
proof -
  let ?l = "take 100 (sort_key (rankKey name) xs)"
  have a: "list_all (hasAttribute name) ?l"
    using assms set_take_subset[of 100 "sort_key (rankKey name) xs"]
    by (auto simp: list_all_iff)
  have "sorted (map (rankKey name) (sort_key (rankKey name) xs))"
    by (rule sorted_sort_key)
  then have "sorted (map (rankKey name) ?l)"
    by (simp add: take_map[symmetric] sorted_wrt_take)
  then have "sorted_wrt (ranked name) ?l"
    using a by (simp add: sorted_rankKey_ranked)
  then show ?thesis using a by (simp add: servedView_def)
qed

lemma servedView_findSortLimit: "servedView name (findSortLimit name documents)"
  unfolding findSortLimit_def leaderboardMax_def
  by (rule servedView_sorted_take) (simp add: list_all_iff hasAttribute_def)

lemma servedView_newRawLeaderboard:
  assumes "list_all (hasAttribute name) existing" and "map_of attrs name \<noteq> None"
  shows "servedView name (newRawLeaderboard now u attrs name existing)"
  unfolding newRawLeaderboard_def
  by (rule servedView_sorted_take) (use assms in \<open>simp add: list_all_iff hasAttribute_def\<close>)

lemma mirrorServed_update:
  "mirrorServed db \<Longrightarrow> servedView name l \<Longrightarrow>
   mirrorServed (db\<lparr>cachedRawLeaderboards := (cachedRawLeaderboards db)(name \<mapsto> l)\<rparr>)"
  by (simp add: mirrorServed_def)

lemma fetchMemberLeaderboardRaw_served:
  assumes "mirrorServed db"
  shows "mirrorServed (snd (fetchMemberLeaderboardRaw up name db))"
    and "fst (fetchMemberLeaderboardRaw up name db) = Inr l \<Longrightarrow> servedView name l"
proof -
  show "mirrorServed (snd (fetchMemberLeaderboardRaw up name db))"
    using assms by (simp add: fetchMemberLeaderboardRaw_def Let_def mirrorServed_update
        servedView_findSortLimit split: option.split)
  assume "fst (fetchMemberLeaderboardRaw up name db) = Inr l"
  then show "servedView name l"
    using assms
    by (auto simp: fetchMemberLeaderboardRaw_def Let_def mirrorServed_def servedView_findSortLimit
        split: option.splits if_splits)
qed

lemma applicableLoop_served:
  "mirrorServed db \<Longrightarrow> mirrorServed (snd (applicableLoop up entries acc db))"
proof (induction up entries acc db rule: applicableLoop.induct)
  case (1 up acc db)
  then show ?case by simp
next
  case (2 up leaderboard attributeValue rest acc db)
  obtain r db' where g: "getMemberLeaderboardRequirement up leaderboard db = (r, db')"
    by (cases "getMemberLeaderboardRequirement up leaderboard db")
  then have "db' = snd (fetchMemberLeaderboardRaw up leaderboard db)"
    using getMemberLeaderboardRequirement_snd[of up leaderboard db] by simp
  then have s: "mirrorServed db'"
    using "2.prems" by (simp add: fetchMemberLeaderboardRaw_served(1))
  show ?case
  proof (cases r)
    case (Inl e)
    then show ?thesis using g s by simp
  next
    case (Inr requirement)
    then show ?thesis using g "2.IH"[OF g[symmetric] Inr refl s] by (simp add: Let_def)
  qed
qed

lemma patchLoop_served:
  "mirrorServed db \<Longrightarrow> \<forall>(n, v)\<in>set entries. map_of attrs n \<noteq> None \<Longrightarrow>
   mirrorServed (snd (patchLoop up now u attrs entries db))"
proof (induction up now u attrs entries db rule: patchLoop.induct)
  case (1 up now u attrs db)
  then show ?case by simp
next
  case (2 up now u attrs attributeName attributeValue rest db)
  obtain r db' where f: "fetchMemberLeaderboardRaw up attributeName db = (r, db')"
    by (cases "fetchMemberLeaderboardRaw up attributeName db")
  have s: "mirrorServed db'"
    using fetchMemberLeaderboardRaw_served(1)[OF "2.prems"(1), of up attributeName] f by simp
  show ?case
  proof (cases r)
    case (Inl e)
    then show ?thesis using f s by simp
  next
    case (Inr existing)
    have "servedView attributeName existing"
      using fetchMemberLeaderboardRaw_served(2)[OF "2.prems"(1), of up attributeName existing] f Inr
      by simp
    then have "list_all (hasAttribute attributeName) existing" by (simp add: servedView_def)
    moreover have "map_of attrs attributeName \<noteq> None" using "2.prems"(2) by simp
    ultimately have "servedView attributeName (newRawLeaderboard now u attrs attributeName existing)"
      by (rule servedView_newRawLeaderboard)
    then have "mirrorServed (db'\<lparr>cachedRawLeaderboards := (cachedRawLeaderboards db')
                  (attributeName \<mapsto> newRawLeaderboard now u attrs attributeName existing)\<rparr>)"
      using s by (rule mirrorServed_update[rotated])
    then show ?thesis
      using f Inr "2.IH"[OF f[symmetric] Inr] "2.prems"(2) by simp
  qed
qed

lemma map_of_entries: "\<forall>(n, v)\<in>set attrs. map_of attrs n \<noteq> None"
  by (auto simp: map_of_eq_None_iff intro: rev_image_eqI)

lemma commitMember_served:
  "mirrorServed db \<Longrightarrow> mirrorServed (snd (commitMember up now member prof attrs db))"
proof -
  assume a: "mirrorServed db"
  let ?db = "db\<lparr>memberLeaderboardsCollection :=
               updateOne (member_uuid member) (profile_uuid prof) attrs now
                 (memberLeaderboardsCollection db)\<rparr>"
  have "mirrorServed ?db" using a by (simp add: mirrorServed_def)
  then have "mirrorServed (snd (patchLoop up now (member_uuid member) attrs attrs ?db))"
    using map_of_entries[of attrs] by (rule patchLoop_served)
  then show ?thesis
    using a by (cases up) (simp_all add: commitMember_def)
qed

lemma updateDatabaseMember_served:
  assumes "mirrorServed db"
  shows "mirrorServed (snd (updateDatabaseMember env now member prof db))"
proof -
  let ?key = "profile_uuid prof @ member_uuid member"
  let ?db1 = "recentlyUpdated_set now ?key db"
  have s1: "mirrorServed ?db1"
    using assms by (simp add: mirrorServed_def recentlyUpdated_set_def)
  obtain r db2 where a: "getApplicableAttributes (storeUp env) member ?db1 = (r, db2)"
    by (cases "getApplicableAttributes (storeUp env) member ?db1")
  have s2: "mirrorServed db2"
    using a applicableLoop_served[OF s1, of "storeUp env" "getMemberLeaderboardAttributes member" "[]"]
    by (simp add: getApplicableAttributes_def)
  show ?thesis
    using assms s1 s2 a commitMember_served[OF s2]
    by (simp add: updateDatabaseMember_def Let_def split: sum.split)
qed

lemma perform_served: "mirrorServed db \<Longrightarrow> mirrorServed (perform operation db)"
  by (cases operation)
    (simp_all add: updateDatabaseMember_served fetchMemberLeaderboardRaw_served(1))

lemma fold_perform_served: "mirrorServed db \<Longrightarrow> mirrorServed (fold perform operations db)"
  by (induction operations arbitrary: db) (simp_all add: perform_served)

lemma mirrorServed_empty: "cachedRawLeaderboards db = Map.empty \<Longrightarrow> mirrorServed db"
  by (simp add: mirrorServed_def)

text \<open>
  Claim C8. From a module with an empty mirror, whatever the collection holds, and after
  any sequence of member updates and leaderboard reads (each in any environment), a read
  of the leaderboard \<open>name\<close> that returns a list returns at most a hundred entries, each
  before the next in the order of the leaderboard: values descending, ascending when the
  name is reversed. The invariant behind it is kept by every update and every read, a
  read being a hit on the mirror or a query of the store; the view that the mirror patch
  builds is itself bounded and sorted; and a read returns a list whenever the store is up.
\<close>

theorem leaderboard_view_bounded_sorted:
  "(cachedRawLeaderboards db = Map.empty
      \<and> fst (fetchMemberLeaderboardRaw up name (fold perform operations db)) = Inr leaderboard
    \<longrightarrow> length leaderboard \<le> 100 \<and> sorted_wrt (ranked name) leaderboard)
   \<and> (mirrorServed db \<longrightarrow>
        mirrorServed (snd (updateDatabaseMember env now member prof db))
        \<and> mirrorServed (snd (fetchMemberLeaderboardRaw up name db))
        \<and> (\<forall>l. fst (fetchMemberLeaderboardRaw up name db) = Inr l
              \<longrightarrow> length l \<le> 100 \<and> sorted_wrt (ranked name) l))
   \<and> (list_all (hasAttribute name) existing \<and> map_of attrs name \<noteq> None \<longrightarrow>
        length (newRawLeaderboard now u attrs name existing) \<le> 100
        \<and> sorted_wrt (ranked name) (newRawLeaderboard now u attrs name existing))
   \<and> (up \<longrightarrow> (\<exists>l. fst (fetchMemberLeaderboardRaw up name db) = Inr l))"
proof (intro conjI impI allI)
  assume a: "cachedRawLeaderboards db = Map.empty
      \<and> fst (fetchMemberLeaderboardRaw up name (fold perform operations db)) = Inr leaderboard"
  then have m: "mirrorServed (fold perform operations db)"
    by (simp add: mirrorServed_empty fold_perform_served)
  from a have "fst (fetchMemberLeaderboardRaw up name (fold perform operations db)) = Inr leaderboard"
    by simp
  with m have "servedView name leaderboard"
    by (rule fetchMemberLeaderboardRaw_served(2))
  then show "length leaderboard \<le> 100" and "sorted_wrt (ranked name) leaderboard"
    by (simp_all add: servedView_def)
next
  assume "mirrorServed db"
  then show "mirrorServed (snd (updateDatabaseMember env now member prof db))"
    by (rule updateDatabaseMember_served)
next
  assume "mirrorServed db"
  then show "mirrorServed (snd (fetchMemberLeaderboardRaw up name db))"
    by (rule fetchMemberLeaderboardRaw_served(1))
next
  fix l
  assume "mirrorServed db" and "fst (fetchMemberLeaderboardRaw up name db) = Inr l"
  then have "servedView name l" by (rule fetchMemberLeaderboardRaw_served(2))
  then show "length l \<le> 100" and "sorted_wrt (ranked name) l"
    by (simp_all add: servedView_def)
next
  assume "list_all (hasAttribute name) existing \<and> map_of attrs name \<noteq> None"
  then have "servedView name (newRawLeaderboard now u attrs name existing)"
    by (simp add: servedView_newRawLeaderboard)
  then show "length (newRawLeaderboard now u attrs name existing) \<le> 100"
    and "sorted_wrt (ranked name) (newRawLeaderboard now u attrs name existing)"
    by (simp_all add: servedView_def)
next
  assume up
  then show "\<exists>l. fst (fetchMemberLeaderboardRaw up name db) = Inr l"
    by (simp add: fetchMemberLeaderboardRaw_def Let_def split: option.split)
qed

lemma kills_not_reversed: "\<not> isLeaderboardReversed ''kills''"
  by (simp add: isLeaderboardReversed_def reversedLeaderboards_def trailingStart_def
      trailingEnd_def suffix_def)

lemma best_time_reversed: "isLeaderboardReversed ''x_best_time''"
  by (simp add: isLeaderboardReversed_def reversedLeaderboards_def trailingStart_def
      trailingEnd_def suffix_def)

lemma example_fetch_kills:
  "fst (fetchMemberLeaderboardRaw True ''kills''
          (fold perform [FetchRaw True ''x_best_time'']
             (emptyDatabase\<lparr>memberLeaderboardsCollection := exampleCollection\<rparr>)))
     = Inr [\<lparr>uuid = ''b'', profile = Some ''p'', stats = [(''kills'', 9), (''x_best_time'', 20)],
             last_updated = 0\<rparr>,
            \<lparr>uuid = ''a'', profile = Some ''p'', stats = [(''kills'', 5), (''x_best_time'', 30)],
             last_updated = 0\<rparr>]"
  by (simp add: fetchMemberLeaderboardRaw_def findSortLimit_def emptyDatabase_def
      exampleCollection_def rankKey_def kills_not_reversed best_time_reversed Let_def
      leaderboardMax_def)

lemma example_fetch_best_time:
  "fst (fetchMemberLeaderboardRaw False ''x_best_time''
          (fold perform [FetchRaw True ''x_best_time'']
             (emptyDatabase\<lparr>memberLeaderboardsCollection := exampleCollection\<rparr>)))
     = Inr [\<lparr>uuid = ''b'', profile = Some ''p'', stats = [(''kills'', 9), (''x_best_time'', 20)],
             last_updated = 0\<rparr>,
            \<lparr>uuid = ''a'', profile = Some ''p'', stats = [(''kills'', 5), (''x_best_time'', 30)],
             last_updated = 0\<rparr>]"
  by (simp add: fetchMemberLeaderboardRaw_def findSortLimit_def emptyDatabase_def
      exampleCollection_def rankKey_def kills_not_reversed best_time_reversed Let_def
      leaderboardMax_def)

text \<open>
  C8 on a collection of three documents: the views of \<open>kills\<close> (descending) and of the
  reversed \<open>x_best_time\<close> (ascending), an update on the empty database, and a patch.
\<close>

theorem leaderboard_view_bounded_sorted_witness:
  "fst (fetchMemberLeaderboardRaw True ''kills''
          (fold perform [FetchRaw True ''x_best_time'']
             (emptyDatabase\<lparr>memberLeaderboardsCollection := exampleCollection\<rparr>)))
     = Inr [\<lparr>uuid = ''b'', profile = Some ''p'', stats = [(''kills'', 9), (''x_best_time'', 20)],
             last_updated = 0\<rparr>,
            \<lparr>uuid = ''a'', profile = Some ''p'', stats = [(''kills'', 5), (''x_best_time'', 30)],
             last_updated = 0\<rparr>]
   \<and> sorted_wrt (ranked ''kills'')
        [\<lparr>uuid = ''b'', profile = Some ''p'', stats = [(''kills'', 9), (''x_best_time'', 20)],
             last_updated = 0\<rparr>,
         \<lparr>uuid = ''a'', profile = Some ''p'', stats = [(''kills'', 5), (''x_best_time'', 30)],
             last_updated = 0\<rparr>]
   \<and> sorted_wrt (ranked ''x_best_time'')
        [\<lparr>uuid = ''b'', profile = Some ''p'', stats = [(''kills'', 9), (''x_best_time'', 20)],
             last_updated = 0\<rparr>,
         \<lparr>uuid = ''a'', profile = Some ''p'', stats = [(''kills'', 5), (''x_best_time'', 30)],
             last_updated = 0\<rparr>]
   \<and> mirrorServed (snd (updateDatabaseMember \<lparr>storeUp = True, constantsUp = True\<rparr> 1000
                          exampleMember exampleProfile emptyDatabase))
   \<and> length (newRawLeaderboard 1000 ''d'' [(''kills'', 7)] ''kills''
        [\<lparr>uuid = ''b'', profile = Some ''p'', stats = [(''kills'', 9), (''x_best_time'', 20)],
             last_updated = 0\<rparr>,
         \<lparr>uuid = ''a'', profile = Some ''p'', stats = [(''kills'', 5), (''x_best_time'', 30)],
             last_updated = 0\<rparr>]) \<le> 100
   \<and> sorted_wrt (ranked ''kills'') (newRawLeaderboard 1000 ''d'' [(''kills'', 7)] ''kills''
        [\<lparr>uuid = ''b'', profile = Some ''p'', stats = [(''kills'', 9), (''x_best_time'', 20)],
             last_updated = 0\<rparr>,
         \<lparr>uuid = ''a'', profile = Some ''p'', stats = [(''kills'', 5), (''x_best_time'', 30)],
             last_updated = 0\<rparr>])
   \<and> (\<exists>l. fst (fetchMemberLeaderboardRaw True ''kills'' emptyDatabase) = Inr l)"
proof -
  let ?b = "\<lparr>uuid = ''b'', profile = Some ''p'', stats = [(''kills'', 9), (''x_best_time'', 20)],
             last_updated = 0\<rparr>"
  let ?a = "\<lparr>uuid = ''a'', profile = Some ''p'', stats = [(''kills'', 5), (''x_best_time'', 30)],
             last_updated = 0\<rparr>"
  let ?db = "emptyDatabase\<lparr>memberLeaderboardsCollection := exampleCollection\<rparr>"
  let ?ops = "[FetchRaw True ''x_best_time'']"
  let ?env = "\<lparr>storeUp = True, constantsUp = True\<rparr>"
  note T = leaderboard_view_bounded_sorted
  have e: "cachedRawLeaderboards ?db = Map.empty" by (simp add: emptyDatabase_def)
  have t1: "length [?b, ?a] \<le> 100 \<and> sorted_wrt (ranked ''kills'') [?b, ?a]"
    using T[where db = ?db and up = True and name = "''kills''" and operations = ?ops
        and leaderboard = "[?b, ?a]", THEN conjunct1] e example_fetch_kills
    by blast
  have t2: "length [?b, ?a] \<le> 100 \<and> sorted_wrt (ranked ''x_best_time'') [?b, ?a]"
    using T[where db = ?db and up = False and name = "''x_best_time''" and operations = ?ops
        and leaderboard = "[?b, ?a]", THEN conjunct1] e example_fetch_best_time
    by blast
  have m: "mirrorServed emptyDatabase" by (simp add: mirrorServed_def emptyDatabase_def)
  have t3: "mirrorServed (snd (updateDatabaseMember ?env 1000 exampleMember exampleProfile emptyDatabase))"
    using T[where db = emptyDatabase and env = ?env and now = 1000 and member = exampleMember
        and prof = exampleProfile, THEN conjunct2, THEN conjunct1] m
    by blast
  have h: "list_all (hasAttribute ''kills'') [?b, ?a] \<and> map_of [(''kills'', 7::rat)] ''kills'' \<noteq> None"
    by (simp add: hasAttribute_def)
  have t4: "length (newRawLeaderboard 1000 ''d'' [(''kills'', 7)] ''kills'' [?b, ?a]) \<le> 100
      \<and> sorted_wrt (ranked ''kills'') (newRawLeaderboard 1000 ''d'' [(''kills'', 7)] ''kills'' [?b, ?a])"
    using T[where name = "''kills''" and existing = "[?b, ?a]" and attrs = "[(''kills'', 7)]"
        and now = 1000 and u = "''d''", THEN conjunct2, THEN conjunct2, THEN conjunct1] h
    by blast
  have t5: "\<exists>l. fst (fetchMemberLeaderboardRaw True ''kills'' emptyDatabase) = Inr l"
    using T[where up = True and name = "''kills''" and db = emptyDatabase,
        THEN conjunct2, THEN conjunct2, THEN conjunct2]
    by blast
  show ?thesis using t1 t2 t3 t4 t5 example_fetch_kills by blast
qed

subsection \<open>Stable sorting of a list with one more element\<close>

lemma insort_key_before:
  fixes k :: "'a \<Rightarrow> 'b::linorder"
  assumes "k x \<le> k e"
  shows "insort_key k x (ys @ e # zs) = insort_key k x ys @ e # zs"
  using assms by (induction ys) simp_all

lemma insort_key_after:
  fixes k :: "'a \<Rightarrow> 'b::linorder"
  assumes "\<forall>y\<in>set ys. k y < k x" and "k e < k x"
  shows "insort_key k x (ys @ e # zs) = ys @ e # insort_key k x zs"
  using assms by (induction ys) auto

lemma sort_key_snoc:
  fixes k :: "'a \<Rightarrow> 'b::linorder"
  shows "sort_key k (xs @ [e]) =
           filter (\<lambda>x. k x \<le> k e) (sort_key k xs) @ e # filter (\<lambda>x. k e < k x) (sort_key k xs)"
proof (induction xs)
  case Nil
  then show ?case by simp
next
  case (Cons x xs)
  let ?S = "sort_key k xs"
  let ?A = "filter (\<lambda>x. k x \<le> k e) ?S"
  let ?B = "filter (\<lambda>x. k e < k x) ?S"
  have s: "sorted (map k ?S)" by (rule sorted_sort_key)
  have "sort_key k ((x # xs) @ [e]) = insort_key k x (?A @ e # ?B)"
    using Cons.IH by simp
  also have "\<dots> = filter (\<lambda>x. k x \<le> k e) (insort_key k x ?S)
                    @ e # filter (\<lambda>x. k e < k x) (insort_key k x ?S)"
  proof (cases "k x \<le> k e")
    case True
    have "insort_key k x (?A @ e # ?B) = insort_key k x ?A @ e # ?B"
      using True by (rule insort_key_before)
    moreover have "filter (\<lambda>x. k x \<le> k e) (insort_key k x ?S) = insort_key k x ?A"
      using s True by (simp add: filter_insort)
    moreover have "filter (\<lambda>x. k e < k x) (insort_key k x ?S) = ?B"
      using True by (simp add: filter_insort_triv)
    ultimately show ?thesis by simp
  next
    case False
    then have lt: "k e < k x" by simp
    have "\<forall>y\<in>set ?A. k y < k x" using lt by auto
    then have "insort_key k x (?A @ e # ?B) = ?A @ e # insort_key k x ?B"
      using lt by (rule insort_key_after)
    moreover have "filter (\<lambda>x. k x \<le> k e) (insort_key k x ?S) = ?A"
      using False by (simp add: filter_insort_triv)
    moreover have "filter (\<lambda>x. k e < k x) (insort_key k x ?S) = insort_key k x ?B"
      using s lt by (simp add: filter_insort)
    ultimately show ?thesis by simp
  qed
  finally show ?case by simp
qed

lemma sort_key_snoc_sorted:
  fixes k :: "'a \<Rightarrow> 'b::linorder"
  assumes "sorted (map k xs)"
  shows "sort_key k (xs @ [e]) =
           filter (\<lambda>x. k x \<le> k e) xs @ e # filter (\<lambda>x. k e < k x) xs"
  using sort_key_snoc[of k xs e] sort_key_id_if_sorted[OF assms] by simp

lemma sort_key_snoc_split:
  fixes k :: "'a \<Rightarrow> 'b::linorder"
  assumes sx: "sorted (map k xs)" and sy: "sorted (map k ys)"
    and kx: "\<forall>x\<in>set xs. k x \<le> k e" and ky: "\<forall>y\<in>set ys. k e < k y"
  shows "sort_key k ((xs @ ys) @ [e]) = xs @ e # ys"
proof -
  have cross: "\<forall>x\<in>set xs. \<forall>y\<in>set ys. k x \<le> k y"
  proof (intro ballI)
    fix x y assume "x \<in> set xs" and "y \<in> set ys"
    then have "k x \<le> k e" and "k e < k y" using kx ky by blast+
    then show "k x \<le> k y" by simp
  qed
  have "sorted (map k (xs @ ys))"
    using sx sy cross by (simp add: sorted_append)
  then have "sort_key k ((xs @ ys) @ [e])
      = filter (\<lambda>x. k x \<le> k e) (xs @ ys) @ e # filter (\<lambda>x. k e < k x) (xs @ ys)"
    by (rule sort_key_snoc_sorted)
  moreover have "filter (\<lambda>x. k x \<le> k e) xs = xs"
    by (rule filter_True) (rule kx)
  moreover have "filter (\<lambda>x. k e < k x) ys = ys"
    by (rule filter_True) (rule ky)
  moreover have "filter (\<lambda>x. k x \<le> k e) ys = []"
    using ky by (simp add: filter_empty_conv not_le)
  moreover have "filter (\<lambda>x. k e < k x) xs = []"
    using kx by (simp add: filter_empty_conv not_less)
  ultimately show ?thesis by (simp only: filter_append append_Nil append_Nil2)
qed

lemma patch_view_again:
  fixes k :: "'a \<Rightarrow> 'b::linorder"
  assumes F: "\<forall>x\<in>set F. \<not> P x" and e1: "P e1" and e2: "P e2" and k: "k e2 = k e1"
  shows "take n (sort_key k (filter (\<lambda>v. \<not> P v) (take n (sort_key k (F @ [e1]))) @ [e2]))
           = map (\<lambda>d. if P d then e2 else d) (take n (sort_key k (F @ [e1])))"
proof -
  define A where "A = filter (\<lambda>x. k x \<le> k e1) (sort_key k F)"
  define B where "B = filter (\<lambda>x. k e1 < k x) (sort_key k F)"
  have T: "sort_key k (F @ [e1]) = A @ e1 # B"
    unfolding A_def B_def by (rule sort_key_snoc)
  have s: "sorted (map k (sort_key k F))" by (rule sorted_sort_key)
  have nA: "\<forall>x\<in>set A. \<not> P x" and nB: "\<forall>x\<in>set B. \<not> P x"
    using F by (auto simp: A_def B_def)
  have sA: "sorted (map k A)" and sB: "sorted (map k B)"
    using s by (simp_all add: sorted_filter A_def B_def)
  have kA: "\<forall>x\<in>set A. k x \<le> k e2" by (simp add: A_def k)
  have kB: "\<forall>x\<in>set B. k e2 < k x" by (simp add: B_def k)
  show ?thesis
  proof (cases "n \<le> length A")
    case True
    define xs where "xs = take n A"
    have V: "take n (sort_key k (F @ [e1])) = xs" using True by (simp add: T xs_def)
    have sub: "set xs \<subseteq> set A" unfolding xs_def by (rule set_take_subset)
    have len: "length xs = n" using True by (simp add: xs_def)
    have nx: "\<forall>x\<in>set xs. \<not> P x" using nA sub by blast
    have kx: "\<forall>x\<in>set xs. k x \<le> k e2" using kA sub by blast
    have sx: "sorted (map k xs)"
      using sA unfolding xs_def by (simp add: take_map[symmetric] sorted_wrt_take)
    have f: "filter (\<lambda>v. \<not> P v) xs = xs" by (rule filter_True) (rule nx)
    have "sort_key k ((xs @ []) @ [e2]) = xs @ e2 # []"
      by (rule sort_key_snoc_split) (use sx kx in simp_all)
    then have t: "take n (sort_key k (xs @ [e2])) = xs" using len by simp
    have m: "map (\<lambda>d. if P d then e2 else d) xs = xs"
      by (rule map_idI) (use nx in simp)
    show ?thesis unfolding V f t m ..
  next
    case False
    define ys where "ys = take (n - Suc (length A)) B"
    have V: "take n (sort_key k (F @ [e1])) = A @ e1 # ys"
      using False by (simp add: T ys_def take_Cons')
    have sub: "set ys \<subseteq> set B" unfolding ys_def by (rule set_take_subset)
    have len: "length A + Suc (length ys) \<le> n" using False by (simp add: ys_def)
    have ny: "\<forall>x\<in>set ys. \<not> P x" using nB sub by blast
    have ky: "\<forall>x\<in>set ys. k e2 < k x" using kB sub by blast
    have sy: "sorted (map k ys)"
      using sB unfolding ys_def by (simp add: take_map[symmetric] sorted_wrt_take)
    have fA: "filter (\<lambda>v. \<not> P v) A = A" by (rule filter_True) (rule nA)
    have fy: "filter (\<lambda>v. \<not> P v) ys = ys" by (rule filter_True) (rule ny)
    have f: "filter (\<lambda>v. \<not> P v) (A @ e1 # ys) = A @ ys"
      using e1 by (simp only: filter_append filter.simps fA fy simp_thms if_False)
    have "sort_key k ((A @ ys) @ [e2]) = A @ e2 # ys"
      using sA sy kA ky by (rule sort_key_snoc_split)
    then have t: "take n (sort_key k ((A @ ys) @ [e2])) = A @ e2 # ys"
      using len by simp
    have mA: "map (\<lambda>d. if P d then e2 else d) A = A"
      by (rule map_idI) (use nA in simp)
    have my: "map (\<lambda>d. if P d then e2 else d) ys = ys"
      by (rule map_idI) (use ny in simp)
    have m: "map (\<lambda>d. if P d then e2 else d) (A @ e1 # ys) = A @ e2 # ys"
      using e1 by (simp only: map_append list.map mA my if_True)
    show ?thesis unfolding V f t m ..
  qed
qed

lemma patch_view_one:
  fixes k :: "'a \<Rightarrow> 'b::linorder"
  assumes "\<forall>x\<in>set F. \<not> P x"
  shows "length (filter P (take n (sort_key k (F @ [e])))) \<le> 1"
proof -
  have "length (filter P (sort_key k (F @ [e]))) = length (filter P (F @ [e]))"
    by (simp add: filter_sort)
  also have "\<dots> \<le> 1" using assms by (simp add: filter_empty_conv[THEN iffD2])
  finally have a: "length (filter P (sort_key k (F @ [e]))) \<le> 1" .
  have "length (filter P (take n (sort_key k (F @ [e]))))
          \<le> length (filter P (take n (sort_key k (F @ [e]))) @ filter P (drop n (sort_key k (F @ [e]))))"
    by simp
  also have "\<dots> = length (filter P (sort_key k (F @ [e])))"
    by (simp only: filter_append[symmetric] append_take_drop_id)
  finally show ?thesis using a by simp
qed

subsection \<open>Committing a member twice\<close>

lemma fetch_up:
  "fetchMemberLeaderboardRaw True name db
     = (Inr (leaderboardBefore db name),
        db\<lparr>cachedRawLeaderboards := (cachedRawLeaderboards db)(name \<mapsto> leaderboardBefore db name)\<rparr>)"
proof (cases "cachedRawLeaderboards db name")
  case None
  then show ?thesis by (simp add: fetchMemberLeaderboardRaw_def leaderboardBefore_def Let_def)
next
  case (Some l)
  then have "(cachedRawLeaderboards db)(name \<mapsto> l) = cachedRawLeaderboards db"
    by (simp add: fun_upd_idem)
  then show ?thesis using Some by (simp add: fetchMemberLeaderboardRaw_def leaderboardBefore_def)
qed

lemma patchLoop_up:
  "distinct (map fst entries) \<Longrightarrow>
   patchLoop True now u attrs entries db
     = (Inr (),
        db\<lparr>cachedRawLeaderboards :=
             (\<lambda>n. if n \<in> fst ` set entries
                  then Some (newRawLeaderboard now u attrs n (leaderboardBefore db n))
                  else cachedRawLeaderboards db n)\<rparr>)"
proof (induction entries arbitrary: db)
  case Nil
  then show ?case by simp
next
  case (Cons p rest)
  obtain a v where p: "p = (a, v)" by (cases p)
  define N where "N = newRawLeaderboard now u attrs a (leaderboardBefore db a)"
  define db' where "db' = db\<lparr>cachedRawLeaderboards := (cachedRawLeaderboards db)(a \<mapsto> N)\<rparr>"
  have a: "a \<notin> fst ` set rest" and d: "distinct (map fst rest)"
    using Cons.prems by (simp_all add: p)
  have step: "patchLoop True now u attrs (p # rest) db = patchLoop True now u attrs rest db'"
    by (simp add: p fetch_up N_def db'_def)
  have before: "leaderboardBefore db' n = leaderboardBefore db n" if "n \<noteq> a" for n
    using that by (simp add: leaderboardBefore_def db'_def split: option.split)
  have "(\<lambda>n. if n \<in> fst ` set rest
              then Some (newRawLeaderboard now u attrs n (leaderboardBefore db' n))
              else cachedRawLeaderboards db' n)
        = (\<lambda>n. if n \<in> fst ` set (p # rest)
               then Some (newRawLeaderboard now u attrs n (leaderboardBefore db n))
               else cachedRawLeaderboards db n)"
  proof (rule ext)
    fix n
    show "(if n \<in> fst ` set rest
              then Some (newRawLeaderboard now u attrs n (leaderboardBefore db' n))
              else cachedRawLeaderboards db' n)
        = (if n \<in> fst ` set (p # rest)
               then Some (newRawLeaderboard now u attrs n (leaderboardBefore db n))
               else cachedRawLeaderboards db n)"
    proof (cases "n = a")
      case True
      then show ?thesis using a by (simp add: p db'_def N_def)
    next
      case False
      then show ?thesis using before[OF False] by (simp add: p db'_def)
    qed
  qed
  then show ?case
    unfolding step Cons.IH[OF d] by (simp add: db'_def)
qed

lemma newRawLeaderboard_newEntry:
  "newRawLeaderboard now u attrs name existing
     = take 100 (sort_key (rankKey name)
         (filter (\<lambda>v. \<not> uuid v = u) existing @ [newEntry now u attrs]))"
  by (simp add: newRawLeaderboard_def newEntry_def)

lemma rankKey_newEntry: "rankKey name (newEntry t2 u attrs) = rankKey name (newEntry t1 u attrs)"
  by (simp add: rankKey_def newEntry_def)

lemma newRawLeaderboard_members:
  assumes "d \<in> set (newRawLeaderboard now u attrs name existing)" and "uuid d = u"
  shows "d = newEntry now u attrs"
proof -
  have "d \<in> set (sort_key (rankKey name)
         (filter (\<lambda>v. \<not> uuid v = u) existing @ [newEntry now u attrs]))"
    using assms(1) unfolding newRawLeaderboard_newEntry by (rule in_set_takeD)
  then have "d \<in> set (filter (\<lambda>v. \<not> uuid v = u) existing) \<or> d = newEntry now u attrs"
    by auto
  then show ?thesis using assms(2) by auto
qed

lemma newRawLeaderboard_again:
  "newRawLeaderboard t2 u attrs name (newRawLeaderboard t1 u attrs name existing)
     = map (\<lambda>d. if uuid d = u then newEntry t2 u attrs else d)
         (newRawLeaderboard t1 u attrs name existing)"
  unfolding newRawLeaderboard_newEntry
  by (rule patch_view_again) (simp_all add: newEntry_def rankKey_def)

lemma newRawLeaderboard_again_dates:
  "map withoutDate (newRawLeaderboard t2 u attrs name (newRawLeaderboard t1 u attrs name existing))
     = map withoutDate (newRawLeaderboard t1 u attrs name existing)"
proof -
  have "withoutDate (if uuid d = u then newEntry t2 u attrs else d) = withoutDate d"
    if "d \<in> set (newRawLeaderboard t1 u attrs name existing)" for d
  proof (cases "uuid d = u")
    case True
    then have "d = newEntry t1 u attrs" using that by (rule newRawLeaderboard_members[rotated])
    then show ?thesis using True by (simp add: withoutDate_def newEntry_def)
  next
    case False
    then show ?thesis by simp
  qed
  then show ?thesis unfolding newRawLeaderboard_again by (simp add: comp_def)
qed

lemma newRawLeaderboard_again_same:
  "newRawLeaderboard t u attrs name (newRawLeaderboard t u attrs name existing)
     = newRawLeaderboard t u attrs name existing"
proof -
  have "(if uuid d = u then newEntry t u attrs else d) = d"
    if "d \<in> set (newRawLeaderboard t u attrs name existing)" for d
    using that newRawLeaderboard_members[of d t u attrs name existing] by auto
  then show ?thesis unfolding newRawLeaderboard_again by (simp add: map_idI)
qed

lemma newRawLeaderboard_one:
  "length (filter (\<lambda>d. uuid d = u) (newRawLeaderboard now u attrs name existing)) \<le> 1"
  unfolding newRawLeaderboard_newEntry
  by (rule patch_view_one) simp

lemma updateOne_again_dates:
  "map withoutDate (updateOne u p attrs t2 (updateOne u p attrs t1 ds))
     = map withoutDate (updateOne u p attrs t1 ds)"
  by (induction ds) (simp_all add: withoutDate_def)

lemma updateOne_again_same:
  "updateOne u p attrs t (updateOne u p attrs t ds) = updateOne u p attrs t ds"
  by (induction ds) simp_all

lemma updateOne_one:
  "length (filter (\<lambda>d. uuid d = u \<and> profile d = Some p) ds) \<le> 1 \<Longrightarrow>
   length (filter (\<lambda>d. uuid d = u \<and> profile d = Some p) (updateOne u p attrs t ds)) = 1"
  by (induction ds) (auto simp: filter_empty_conv)

lemma commitMember_up:
  assumes "distinct (map fst attrs)"
  shows "commitMember True now member prof attrs db
           = (Inr (), afterCommit now member prof attrs db)"
proof -
  define dbU where "dbU = afterUpsert now member prof attrs db"
  have c: "cachedRawLeaderboards dbU = cachedRawLeaderboards db"
    by (simp add: dbU_def afterUpsert_def)
  have "commitMember True now member prof attrs db
          = patchLoop True now (member_uuid member) attrs attrs dbU"
    by (simp add: commitMember_def dbU_def afterUpsert_def)
  also have "\<dots> = (Inr (),
        dbU\<lparr>cachedRawLeaderboards :=
             (\<lambda>n. if n \<in> fst ` set attrs
                  then Some (newRawLeaderboard now (member_uuid member) attrs n
                         (leaderboardBefore dbU n))
                  else cachedRawLeaderboards db n)\<rparr>)"
    unfolding patchLoop_up[OF assms] c ..
  also have "\<dots> = (Inr (), afterCommit now member prof attrs db)"
    unfolding afterCommit_def dbU_def[symmetric] by (simp add: dbU_def afterUpsert_def)
  finally show ?thesis .
qed

lemma afterCommit_fields:
  "client (afterCommit now member prof attrs db) = client db"
  "recentlyUpdated (afterCommit now member prof attrs db) = recentlyUpdated db"
  "memberLeaderboardsCollection (afterCommit now member prof attrs db)
     = updateOne (member_uuid member) (profile_uuid prof) attrs now (memberLeaderboardsCollection db)"
  "n \<in> fst ` set attrs \<Longrightarrow>
     cachedRawLeaderboards (afterCommit now member prof attrs db) n
       = Some (newRawLeaderboard now (member_uuid member) attrs n
                 (leaderboardBefore (afterUpsert now member prof attrs db) n))"
  "n \<notin> fst ` set attrs \<Longrightarrow>
     cachedRawLeaderboards (afterCommit now member prof attrs db) n = cachedRawLeaderboards db n"
  by (simp_all add: afterCommit_def)

lemma leaderboardBefore_cached:
  "cachedRawLeaderboards db n = Some l \<Longrightarrow> leaderboardBefore db n = l"
  by (simp add: leaderboardBefore_def)

lemma afterCommit_again_cached:
  assumes "n \<in> fst ` set attrs"
  shows "cachedRawLeaderboards (afterCommit t2 member prof attrs (afterCommit t1 member prof attrs db)) n
     = Some (newRawLeaderboard t2 (member_uuid member) attrs n
              (newRawLeaderboard t1 (member_uuid member) attrs n
                 (leaderboardBefore (afterUpsert t1 member prof attrs db) n)))"
proof -
  let ?db1 = "afterCommit t1 member prof attrs db"
  have "cachedRawLeaderboards (afterUpsert t2 member prof attrs ?db1) n
          = cachedRawLeaderboards ?db1 n"
    by (simp add: afterUpsert_def)
  then have "leaderboardBefore (afterUpsert t2 member prof attrs ?db1) n
          = newRawLeaderboard t1 (member_uuid member) attrs n
              (leaderboardBefore (afterUpsert t1 member prof attrs db) n)"
    using afterCommit_fields(4)[OF assms, of t1 member prof db]
    by (simp add: leaderboardBefore_cached)
  then show ?thesis
    using afterCommit_fields(4)[OF assms, of t2 member prof ?db1] by simp
qed

lemma afterCommit_again_dates:
  "map_option (map withoutDate)
     (cachedRawLeaderboards (afterCommit t2 member prof attrs (afterCommit t1 member prof attrs db)) n)
   = map_option (map withoutDate) (cachedRawLeaderboards (afterCommit t1 member prof attrs db) n)"
proof (cases "n \<in> fst ` set attrs")
  case True
  note a = afterCommit_again_cached[OF True, of t2 member prof t1 db]
  note b = afterCommit_fields(4)[OF True, of t1 member prof db]
  show ?thesis
    unfolding a unfolding b by (simp add: newRawLeaderboard_again_dates)
next
  case False
  then show ?thesis by (simp add: afterCommit_fields(5))
qed

lemma afterCommit_again_same:
  "afterCommit t member prof attrs (afterCommit t member prof attrs db)
     = afterCommit t member prof attrs db"
proof -
  let ?db1 = "afterCommit t member prof attrs db"
  have "cachedRawLeaderboards (afterCommit t member prof attrs ?db1) n
          = cachedRawLeaderboards ?db1 n" for n
  proof (cases "n \<in> fst ` set attrs")
    case True
    note a = afterCommit_again_cached[OF True, of t member prof t db]
    note b = afterCommit_fields(4)[OF True, of t member prof db]
    show ?thesis
      unfolding a unfolding b by (simp add: newRawLeaderboard_again_same)
  next
    case False
    then show ?thesis by (simp add: afterCommit_fields(5))
  qed
  then have "cachedRawLeaderboards (afterCommit t member prof attrs ?db1)
          = cachedRawLeaderboards ?db1" by (rule ext)
  moreover have "memberLeaderboardsCollection (afterCommit t member prof attrs ?db1)
          = memberLeaderboardsCollection ?db1"
    by (simp add: afterCommit_fields(3) updateOne_again_same)
  ultimately show ?thesis
    by (intro database.equality) (simp_all add: afterCommit_fields(1,2))
qed

text \<open>
  Claim C9, as the code has it. With the store reachable, the commit step for a member
  succeeds, and a second commit with the same attributes leaves the stored documents and
  every view of the mirror as the first left them except for \<^verbatim>\<open>last_updated\<close>, which
  each commit sets to its own \<^verbatim>\<open>new Date()\<close>: the two states agree once the dates are
  erased, and they are equal when both commits read the same time. After a commit each
  leaderboard of the attributes has a view in the mirror, with at most one entry of the
  member's uuid, and the collection holds exactly one document of the member and profile
  (if it held at most one before).
\<close>

theorem commit_twice_same_but_dates:
  "distinct (map fst attrs) \<longrightarrow>
     fst (commitMember True t1 member prof attrs db) = Inr ()
     \<and> fst (commitMember True t2 member prof attrs
               (snd (commitMember True t1 member prof attrs db))) = Inr ()
     \<and> map withoutDate (memberLeaderboardsCollection
           (snd (commitMember True t2 member prof attrs
                   (snd (commitMember True t1 member prof attrs db)))))
         = map withoutDate (memberLeaderboardsCollection
             (snd (commitMember True t1 member prof attrs db)))
     \<and> (\<forall>n. map_option (map withoutDate)
               (cachedRawLeaderboards
                  (snd (commitMember True t2 member prof attrs
                          (snd (commitMember True t1 member prof attrs db)))) n)
             = map_option (map withoutDate)
                 (cachedRawLeaderboards (snd (commitMember True t1 member prof attrs db)) n))
     \<and> (t2 = t1 \<longrightarrow>
           snd (commitMember True t2 member prof attrs
                  (snd (commitMember True t1 member prof attrs db)))
             = snd (commitMember True t1 member prof attrs db))
     \<and> (\<forall>n\<in>fst ` set attrs.
           \<exists>l. cachedRawLeaderboards (snd (commitMember True t1 member prof attrs db)) n = Some l
               \<and> length (filter (\<lambda>d. uuid d = member_uuid member) l) \<le> 1)
     \<and> (length (filter (\<lambda>d. uuid d = member_uuid member \<and> profile d = Some (profile_uuid prof))
                   (memberLeaderboardsCollection db)) \<le> 1 \<longrightarrow>
          length (filter (\<lambda>d. uuid d = member_uuid member \<and> profile d = Some (profile_uuid prof))
                   (memberLeaderboardsCollection
                      (snd (commitMember True t1 member prof attrs db)))) = 1)"
proof (intro impI)
  assume d: "distinct (map fst attrs)"
  let ?db1 = "afterCommit t1 member prof attrs db"
  let ?db2 = "afterCommit t2 member prof attrs ?db1"
  have c1: "commitMember True t1 member prof attrs db = (Inr (), ?db1)"
    by (rule commitMember_up[OF d])
  have c2: "commitMember True t2 member prof attrs ?db1 = (Inr (), ?db2)"
    by (rule commitMember_up[OF d])
  have 1: "map withoutDate (memberLeaderboardsCollection ?db2)
             = map withoutDate (memberLeaderboardsCollection ?db1)"
    by (simp add: afterCommit_fields(3) updateOne_again_dates)
  have 2: "\<forall>n. map_option (map withoutDate) (cachedRawLeaderboards ?db2 n)
             = map_option (map withoutDate) (cachedRawLeaderboards ?db1 n)"
    by (simp add: afterCommit_again_dates)
  have 3: "t2 = t1 \<longrightarrow> ?db2 = ?db1"
    by (simp add: afterCommit_again_same)
  have 4: "\<forall>n\<in>fst ` set attrs.
           \<exists>l. cachedRawLeaderboards ?db1 n = Some l
               \<and> length (filter (\<lambda>d. uuid d = member_uuid member) l) \<le> 1"
  proof
    fix n assume n: "n \<in> fst ` set attrs"
    show "\<exists>l. cachedRawLeaderboards ?db1 n = Some l
               \<and> length (filter (\<lambda>d. uuid d = member_uuid member) l) \<le> 1"
      unfolding afterCommit_fields(4)[OF n] using newRawLeaderboard_one by blast
  qed
  have 5: "length (filter (\<lambda>d. uuid d = member_uuid member \<and> profile d = Some (profile_uuid prof))
                   (memberLeaderboardsCollection db)) \<le> 1 \<longrightarrow>
          length (filter (\<lambda>d. uuid d = member_uuid member \<and> profile d = Some (profile_uuid prof))
                   (memberLeaderboardsCollection ?db1)) = 1"
    by (simp add: afterCommit_fields(3) updateOne_one)
  show "fst (commitMember True t1 member prof attrs db) = Inr ()
     \<and> fst (commitMember True t2 member prof attrs
               (snd (commitMember True t1 member prof attrs db))) = Inr ()
     \<and> map withoutDate (memberLeaderboardsCollection
           (snd (commitMember True t2 member prof attrs
                   (snd (commitMember True t1 member prof attrs db)))))
         = map withoutDate (memberLeaderboardsCollection
             (snd (commitMember True t1 member prof attrs db)))
     \<and> (\<forall>n. map_option (map withoutDate)
               (cachedRawLeaderboards
                  (snd (commitMember True t2 member prof attrs
                          (snd (commitMember True t1 member prof attrs db)))) n)
             = map_option (map withoutDate)
                 (cachedRawLeaderboards (snd (commitMember True t1 member prof attrs db)) n))
     \<and> (t2 = t1 \<longrightarrow>
           snd (commitMember True t2 member prof attrs
                  (snd (commitMember True t1 member prof attrs db)))
             = snd (commitMember True t1 member prof attrs db))
     \<and> (\<forall>n\<in>fst ` set attrs.
           \<exists>l. cachedRawLeaderboards (snd (commitMember True t1 member prof attrs db)) n = Some l
               \<and> length (filter (\<lambda>d. uuid d = member_uuid member) l) \<le> 1)
     \<and> (length (filter (\<lambda>d. uuid d = member_uuid member \<and> profile d = Some (profile_uuid prof))
                   (memberLeaderboardsCollection db)) \<le> 1 \<longrightarrow>
          length (filter (\<lambda>d. uuid d = member_uuid member \<and> profile d = Some (profile_uuid prof))
                   (memberLeaderboardsCollection
                      (snd (commitMember True t1 member prof attrs db)))) = 1)"
    unfolding c1 snd_conv fst_conv c2
    using 1 2 3 4 5 by blast
qed

text \<open>C9 on a collection of three documents, with commits at 1000 and 2000.\<close>

theorem commit_twice_same_but_dates_witness:
  "fst (commitMember True 2000 exampleMember exampleProfile [(''kills'', 7), (''purse'', 25 / 2)]
          (snd (commitMember True 1000 exampleMember exampleProfile
                  [(''kills'', 7), (''purse'', 25 / 2)]
                  (emptyDatabase\<lparr>memberLeaderboardsCollection := exampleCollection\<rparr>)))) = Inr ()
   \<and> map withoutDate (memberLeaderboardsCollection
         (snd (commitMember True 2000 exampleMember exampleProfile
                 [(''kills'', 7), (''purse'', 25 / 2)]
                 (snd (commitMember True 1000 exampleMember exampleProfile
                         [(''kills'', 7), (''purse'', 25 / 2)]
                         (emptyDatabase\<lparr>memberLeaderboardsCollection := exampleCollection\<rparr>))))))
       = map withoutDate (memberLeaderboardsCollection
           (snd (commitMember True 1000 exampleMember exampleProfile
                   [(''kills'', 7), (''purse'', 25 / 2)]
                   (emptyDatabase\<lparr>memberLeaderboardsCollection := exampleCollection\<rparr>))))
   \<and> map_option (map withoutDate) (cachedRawLeaderboards
         (snd (commitMember True 2000 exampleMember exampleProfile
                 [(''kills'', 7), (''purse'', 25 / 2)]
                 (snd (commitMember True 1000 exampleMember exampleProfile
                         [(''kills'', 7), (''purse'', 25 / 2)]
                         (emptyDatabase\<lparr>memberLeaderboardsCollection := exampleCollection\<rparr>)))))
         ''kills'')
       = map_option (map withoutDate) (cachedRawLeaderboards
           (snd (commitMember True 1000 exampleMember exampleProfile
                   [(''kills'', 7), (''purse'', 25 / 2)]
                   (emptyDatabase\<lparr>memberLeaderboardsCollection := exampleCollection\<rparr>)))
           ''kills'')
   \<and> snd (commitMember True 1000 exampleMember exampleProfile
             [(''kills'', 7), (''purse'', 25 / 2)]
             (snd (commitMember True 1000 exampleMember exampleProfile
                     [(''kills'', 7), (''purse'', 25 / 2)]
                     (emptyDatabase\<lparr>memberLeaderboardsCollection := exampleCollection\<rparr>))))
       = snd (commitMember True 1000 exampleMember exampleProfile
               [(''kills'', 7), (''purse'', 25 / 2)]
               (emptyDatabase\<lparr>memberLeaderboardsCollection := exampleCollection\<rparr>))
   \<and> (\<exists>l. cachedRawLeaderboards
              (snd (commitMember True 1000 exampleMember exampleProfile
                      [(''kills'', 7), (''purse'', 25 / 2)]
                      (emptyDatabase\<lparr>memberLeaderboardsCollection := exampleCollection\<rparr>)))
              ''kills'' = Some l
           \<and> length (filter (\<lambda>d. uuid d = member_uuid exampleMember) l) \<le> 1)
   \<and> length (filter (\<lambda>d. uuid d = member_uuid exampleMember
                          \<and> profile d = Some (profile_uuid exampleProfile))
         (memberLeaderboardsCollection
            (snd (commitMember True 1000 exampleMember exampleProfile
                    [(''kills'', 7), (''purse'', 25 / 2)]
                    (emptyDatabase\<lparr>memberLeaderboardsCollection := exampleCollection\<rparr>))))) = 1"
proof -
  let ?attrs = "[(''kills'', 7 :: rat), (''purse'', 25 / 2)]"
  let ?db = "emptyDatabase\<lparr>memberLeaderboardsCollection := exampleCollection\<rparr>"
  have d: "distinct (map fst ?attrs)" by simp
  have k: "''kills'' \<in> fst ` set ?attrs" by simp
  have one: "length (filter (\<lambda>d. uuid d = member_uuid exampleMember
                          \<and> profile d = Some (profile_uuid exampleProfile))
         (memberLeaderboardsCollection ?db)) \<le> 1"
    by (simp add: emptyDatabase_def exampleCollection_def exampleMember_def)
  note T = commit_twice_same_but_dates[rule_format, OF d]
  from T[of 1000 exampleMember exampleProfile ?db 2000]
    T[of 1000 exampleMember exampleProfile ?db 1000] k one
  show ?thesis by blast
qed

text \<open>
  Claim C9 as stated fails in two ways. The second commit, at the time 2000, changes the
  stored document and the entry of the mirror: their \<^verbatim>\<open>last_updated\<close> is 2000 where the
  first commit left 1000. And a view can hold two entries of one uuid after a commit:
  the collection keeps one document for each profile of a player, the query returns both,
  and the patch removes only the entries of the uuid being committed.
\<close>

theorem commit_twice_counterexample:
  "memberLeaderboardsCollection
      (snd (commitMember True 2000 exampleMember exampleProfile [(''kills'', 7)]
              (snd (commitMember True 1000 exampleMember exampleProfile [(''kills'', 7)]
                      emptyDatabase))))
     = [\<lparr>uuid = member_uuid exampleMember, profile = Some (profile_uuid exampleProfile),
         stats = [(''kills'', 7)], last_updated = 2000\<rparr>]
   \<and> memberLeaderboardsCollection
        (snd (commitMember True 1000 exampleMember exampleProfile [(''kills'', 7)] emptyDatabase))
     = [\<lparr>uuid = member_uuid exampleMember, profile = Some (profile_uuid exampleProfile),
         stats = [(''kills'', 7)], last_updated = 1000\<rparr>]
   \<and> cachedRawLeaderboards
        (snd (commitMember True 2000 exampleMember exampleProfile [(''kills'', 7)]
                (snd (commitMember True 1000 exampleMember exampleProfile [(''kills'', 7)]
                        emptyDatabase)))) ''kills''
     \<noteq> cachedRawLeaderboards
        (snd (commitMember True 1000 exampleMember exampleProfile [(''kills'', 7)] emptyDatabase))
        ''kills''
   \<and> cachedRawLeaderboards
        (snd (commitMember True 1000 (exampleMember\<lparr>member_uuid := ''c''\<rparr>) exampleProfile
                [(''kills'', 7)]
                (emptyDatabase\<lparr>memberLeaderboardsCollection :=
                   [\<lparr>uuid = ''a'', profile = Some ''p'', stats = [(''kills'', 5)], last_updated = 0\<rparr>,
                    \<lparr>uuid = ''a'', profile = Some ''q'', stats = [(''kills'', 9)], last_updated = 0\<rparr>]\<rparr>)))
        ''kills''
     = Some [\<lparr>uuid = ''a'', profile = Some ''q'', stats = [(''kills'', 9)], last_updated = 0\<rparr>,
             \<lparr>uuid = ''c'', profile = None, stats = [(''kills'', 7)], last_updated = 1000\<rparr>,
             \<lparr>uuid = ''a'', profile = Some ''p'', stats = [(''kills'', 5)], last_updated = 0\<rparr>]"
  by (simp add: commitMember_up afterCommit_def afterUpsert_def leaderboardBefore_def
      emptyDatabase_def findSortLimit_def newRawLeaderboard_def rankKey_def kills_not_reversed
      leaderboardMax_def exampleMember_def exampleProfile_def)

subsection \<open>The debounce marker\<close>

lemma updateDatabaseMember_suppressed:
  assumes "recentlyUpdated db (profile_uuid prof @ member_uuid member) = Some expires"
    and "now \<le> expires"
  shows "updateDatabaseMember env now member prof db = (Inr (), db)"
  using assms by (simp add: updateDatabaseMember_def recentlyUpdated_get_def)

lemma updateDatabaseMember_markers:
  "recentlyUpdated (snd (updateDatabaseMember env now member prof db)) =
     (if client db \<and> \<not> recentlyUpdated_get now (profile_uuid prof @ member_uuid member) db
      then (recentlyUpdated db)(profile_uuid prof @ member_uuid member \<mapsto> now + 180000)
      else recentlyUpdated db)"
proof -
  let ?key = "profile_uuid prof @ member_uuid member"
  let ?db1 = "recentlyUpdated_set now ?key db"
  obtain r db2 where a: "getApplicableAttributes (storeUp env) member ?db1 = (r, db2)"
    by (cases "getApplicableAttributes (storeUp env) member ?db1")
  have db2: "recentlyUpdated db2 = recentlyUpdated ?db1"
    using a applicableLoop_frame[of "storeUp env" "getMemberLeaderboardAttributes member" "[]" ?db1]
    by (simp add: getApplicableAttributes_def)
  have m: "recentlyUpdated ?db1 = (recentlyUpdated db)(?key \<mapsto> now + 180000)"
    by (simp add: recentlyUpdated_set_def)
  show ?thesis
    using a db2 m commitMember_frame[of "storeUp env" now member prof _ db2]
    by (simp add: updateDatabaseMember_def Let_def split: sum.split)
qed

text \<open>
  Claim C10. A call of \<^verbatim>\<open>updateDatabaseMember\<close> that passes the two guards (the client
  is set, no live marker) leaves the marker of the pair set for three minutes, whatever
  the environment does afterwards: when \<^verbatim>\<open>constants\<close> rejects, the marker is the only
  change, and in every case any further call for the pair up to the expiry returns at the
  guard with the state untouched, so nothing is written and the failed update is not tried
  again. The same holds in any later state that still has the marker, and calls for
  other pairs do not touch it.
\<close>

theorem debounce_marker_survives_failure:
  "(client db \<and> \<not> recentlyUpdated_get now (profile_uuid prof @ member_uuid member) db \<longrightarrow>
      recentlyUpdated (snd (updateDatabaseMember env now member prof db))
          (profile_uuid prof @ member_uuid member) = Some (now + 3 * 60 * 1000)
      \<and> (\<not> constantsUp env \<longrightarrow>
            updateDatabaseMember env now member prof db
              = (Inl ConstantsUnavailable,
                 recentlyUpdated_set now (profile_uuid prof @ member_uuid member) db))
      \<and> (\<forall>env' now'. now' \<le> now + 3 * 60 * 1000 \<longrightarrow>
            updateDatabaseMember env' now' member prof
                (snd (updateDatabaseMember env now member prof db))
              = (Inr (), snd (updateDatabaseMember env now member prof db))))
   \<and> (recentlyUpdated db (profile_uuid prof @ member_uuid member) = Some expires \<and> now \<le> expires
        \<longrightarrow> updateDatabaseMember env now member prof db = (Inr (), db))
   \<and> (k \<noteq> profile_uuid prof @ member_uuid member \<longrightarrow>
        recentlyUpdated (snd (updateDatabaseMember env now member prof db)) k
          = recentlyUpdated db k)"
proof (intro conjI impI allI)
  let ?key = "profile_uuid prof @ member_uuid member"
  let ?db' = "snd (updateDatabaseMember env now member prof db)"
  {
    assume a: "client db \<and> \<not> recentlyUpdated_get now ?key db"
    then show m: "recentlyUpdated ?db' ?key = Some (now + 3 * 60 * 1000)"
      by (simp add: updateDatabaseMember_markers)
    fix env' now' assume "now' \<le> now + 3 * 60 * 1000"
    with m show "updateDatabaseMember env' now' member prof ?db' = (Inr (), ?db')"
      by (rule updateDatabaseMember_suppressed)
  }
  {
    assume "client db \<and> \<not> recentlyUpdated_get now ?key db" and "\<not> constantsUp env"
    then show "updateDatabaseMember env now member prof db
              = (Inl ConstantsUnavailable, recentlyUpdated_set now ?key db)"
      by (simp add: updateDatabaseMember_def Let_def)
  }
  {
    assume "recentlyUpdated db ?key = Some expires \<and> now \<le> expires"
    then show "updateDatabaseMember env now member prof db = (Inr (), db)"
      by (simp add: updateDatabaseMember_suppressed)
  }
  {
    assume "k \<noteq> ?key"
    then show "recentlyUpdated ?db' k = recentlyUpdated db k"
      by (simp add: updateDatabaseMember_markers)
  }
qed


text \<open>
  C10 on a failing update: the store is down at the time 1000, the call fails with
  nothing written, the marker stands until 181000, and the retry at 100000, with the
  store up again, is suppressed.
\<close>

theorem debounce_marker_survives_failure_witness:
  "fst (updateDatabaseMember \<lparr>storeUp = False, constantsUp = True\<rparr> 1000
          exampleMember exampleProfile emptyDatabase) = Inl StoreUnavailable
   \<and> recentlyUpdated
        (snd (updateDatabaseMember \<lparr>storeUp = False, constantsUp = True\<rparr> 1000
                exampleMember exampleProfile emptyDatabase))
        (profile_uuid exampleProfile @ member_uuid exampleMember) = Some 181000
   \<and> updateDatabaseMember \<lparr>storeUp = False, constantsUp = False\<rparr> 1000
        exampleMember exampleProfile emptyDatabase
       = (Inl ConstantsUnavailable,
          recentlyUpdated_set 1000 (profile_uuid exampleProfile @ member_uuid exampleMember)
            emptyDatabase)
   \<and> updateDatabaseMember \<lparr>storeUp = True, constantsUp = True\<rparr> 100000
        exampleMember exampleProfile
        (snd (updateDatabaseMember \<lparr>storeUp = False, constantsUp = True\<rparr> 1000
                exampleMember exampleProfile emptyDatabase))
       = (Inr (), snd (updateDatabaseMember \<lparr>storeUp = False, constantsUp = True\<rparr> 1000
                exampleMember exampleProfile emptyDatabase))
   \<and> memberLeaderboardsCollection
        (snd (updateDatabaseMember \<lparr>storeUp = False, constantsUp = True\<rparr> 1000
                exampleMember exampleProfile emptyDatabase)) = []
   \<and> recentlyUpdated
        (snd (updateDatabaseMember \<lparr>storeUp = False, constantsUp = True\<rparr> 1000
                exampleMember exampleProfile emptyDatabase)) ''other'' = None"
proof -
  let ?down = "\<lparr>storeUp = False, constantsUp = True\<rparr>"
  let ?off = "\<lparr>storeUp = False, constantsUp = False\<rparr>"
  let ?up = "\<lparr>storeUp = True, constantsUp = True\<rparr>"
  let ?key = "profile_uuid exampleProfile @ member_uuid exampleMember"
  let ?db' = "snd (updateDatabaseMember ?down 1000 exampleMember exampleProfile emptyDatabase)"
  have h: "client emptyDatabase \<and> \<not> recentlyUpdated_get 1000 ?key emptyDatabase"
    by (simp add: emptyDatabase_def recentlyUpdated_get_def)
  have ev: "updateDatabaseMember ?down 1000 exampleMember exampleProfile emptyDatabase
              = (Inl StoreUnavailable, recentlyUpdated_set 1000 ?key emptyDatabase)"
    by (simp add: updateDatabaseMember_def Let_def recentlyUpdated_get_def
        getApplicableAttributes_def exampleAttributes getMemberLeaderboardRequirement_def
        fetchMemberLeaderboardRaw_def recentlyUpdated_set_def emptyDatabase_def)
  note T = debounce_marker_survives_failure
  have t1: "recentlyUpdated ?db' ?key = Some (1000 + 3 * 60 * 1000)"
    using T[where db = emptyDatabase and now = 1000 and prof = exampleProfile and member = exampleMember and env = ?down, THEN conjunct1] h by blast
  have t2: "updateDatabaseMember ?off 1000 exampleMember exampleProfile emptyDatabase
              = (Inl ConstantsUnavailable, recentlyUpdated_set 1000 ?key emptyDatabase)"
    using T[where db = emptyDatabase and now = 1000 and prof = exampleProfile and member = exampleMember and env = ?off, THEN conjunct1] h by simp
  have t3: "updateDatabaseMember ?up 100000 exampleMember exampleProfile ?db' = (Inr (), ?db')"
    using T[where db = emptyDatabase and now = 1000 and prof = exampleProfile and member = exampleMember and env = ?down, THEN conjunct1] h by simp
  have t4: "updateDatabaseMember ?up 100000 exampleMember exampleProfile ?db' = (Inr (), ?db')"
    using T[where db = ?db' and now = 100000 and prof = exampleProfile and member = exampleMember
          and expires = 181000 and env = ?up, THEN conjunct2, THEN conjunct1] t1 by simp
  have "''other'' \<noteq> ?key" by (simp add: exampleProfile_def)
  then have t5: "recentlyUpdated ?db' ''other'' = recentlyUpdated emptyDatabase ''other''"
    using T[where db = emptyDatabase and now = 1000 and prof = exampleProfile
          and member = exampleMember and env = ?down and k = "''other''",
        THEN conjunct2, THEN conjunct2] by blast
  have c: "memberLeaderboardsCollection ?db' = []"
    unfolding ev by (simp add: recentlyUpdated_set_def emptyDatabase_def)
  show ?thesis
    using t1 t2 t3 t4 t5 c ev by (simp add: emptyDatabase_def)
qed


end
